theory Spec2Isabelle
  imports Complex_Main "HOL-Library.Sublist" "HOL-Library.Word"
begin

section \<open>Python values and exceptions\<close>

text \<open>
  The script passes around the values that \<^verbatim>\<open>response.json()\<close> and
  \<^verbatim>\<open>json.loads\<close> produce: \<^verbatim>\<open>None\<close>, booleans, numbers, strings, lists and
  dictionaries with string keys. A dictionary is an association list in insertion order
  whose lookup takes the first binding of a key. A string is a \<open>char list\<close>, a
  character being a code point below 256; the character classes used below (white
  space, upper case, digits) are Python's on that range.
  A float carries its exact value as a rational: only its being zero is ever inspected.
\<close>

datatype json =
    JNull
  | JBool bool
  | JInt int
  | JFloat rat
  | JStr string
  | JArr "json list"
  | JObj "(string \<times> json) list"

text \<open>The exceptions that the modelled functions can raise.\<close>

datatype py_error =
    KeyError
  | IndexError
  | TypeError
  | AttributeError
  | ValueError
  | JSONDecodeError
  | KeyboardInterrupt
  | EOFError
  | OSError
  | ZeroDivisionError
  | CalledProcessError int
  | RequestException

text \<open>Sequencing of a computation that may raise: the first exception wins.\<close>

definition bind_exn :: "py_error + 'a \<Rightarrow> ('a \<Rightarrow> py_error + 'b) \<Rightarrow> py_error + 'b" where
  "bind_exn m f = (case m of Inl e \<Rightarrow> Inl e | Inr x \<Rightarrow> f x)"

text \<open>\<^verbatim>\<open>bool(x)\<close>: the values that Python treats as true.\<close>

fun truthy :: "json \<Rightarrow> bool" where
  "truthy JNull = False"
| "truthy (JBool b) = b"
| "truthy (JInt i) = (i \<noteq> 0)"
| "truthy (JFloat r) = (r \<noteq> 0)"
| "truthy (JStr s) = (s \<noteq> [])"
| "truthy (JArr xs) = (xs \<noteq> [])"
| "truthy (JObj kvs) = (kvs \<noteq> [])"

text \<open>
  \<^verbatim>\<open>key in x\<close> for a string \<open>key\<close>: substring test on a string, element test on a
  list, key test on a dictionary, \<^verbatim>\<open>TypeError\<close> on anything else.
\<close>

fun py_contains :: "string \<Rightarrow> json \<Rightarrow> py_error + bool" where
  "py_contains k (JStr s) = Inr (sublist k s)"
| "py_contains k (JArr xs) = Inr (JStr k \<in> set xs)"
| "py_contains k (JObj kvs) = Inr (k \<in> fst ` set kvs)"
| "py_contains k _ = Inl TypeError"

text \<open>\<^verbatim>\<open>x[key]\<close> for a string \<open>key\<close>.\<close>

fun getitem_str :: "json \<Rightarrow> string \<Rightarrow> py_error + json" where
  "getitem_str (JObj kvs) k = (case map_of kvs k of None \<Rightarrow> Inl KeyError | Some v \<Rightarrow> Inr v)"
| "getitem_str _ k = Inl TypeError"

text \<open>
  \<^verbatim>\<open>xs[i]\<close> on a Python list: a negative index counts from the end, an index out of
  range raises \<^verbatim>\<open>IndexError\<close>.
\<close>

definition list_index :: "'a list \<Rightarrow> int \<Rightarrow> py_error + 'a" where
  "list_index xs i =
     (if 0 \<le> i \<and> i < int (length xs) then Inr (xs ! nat i)
      else if i < 0 \<and> - int (length xs) \<le> i then Inr (xs ! nat (int (length xs) + i))
      else Inl IndexError)"

text \<open>
  \<^verbatim>\<open>x[i]\<close> for an integer \<open>i\<close>: list indexing, one-character string on a string,
  \<^verbatim>\<open>KeyError\<close> on a dictionary (its keys are strings), \<^verbatim>\<open>TypeError\<close> otherwise.
\<close>

fun getitem_int :: "json \<Rightarrow> int \<Rightarrow> py_error + json" where
  "getitem_int (JArr xs) i = list_index xs i"
| "getitem_int (JStr s) i = bind_exn (list_index s i) (\<lambda>c. Inr (JStr [c]))"
| "getitem_int (JObj kvs) i = Inl KeyError"
| "getitem_int _ i = Inl TypeError"

section \<open>String methods\<close>

text \<open>
  \<^verbatim>\<open>str.isspace\<close> on one character: tab to carriage return, the four separators
  \<open>0x1c\<close> to \<open>0x1f\<close>, the space, next line (\<open>0x85\<close>) and the no-break space
  (\<open>0xa0\<close>).
\<close>

definition isspace :: "char \<Rightarrow> bool" where
  "isspace c =
     (let n = of_char c :: nat
      in (9 \<le> n \<and> n \<le> 13) \<or> (28 \<le> n \<and> n \<le> 32) \<or> n = 133 \<or> n = 160)"

text \<open>A string without the characters of a class at its two ends.\<close>

definition strip_chars :: "(char \<Rightarrow> bool) \<Rightarrow> string \<Rightarrow> string" where
  "strip_chars cls s = rev (dropWhile cls (rev (dropWhile cls s)))"

text \<open>\<^verbatim>\<open>s.strip()\<close>\<close>

definition strip :: "string \<Rightarrow> string" where
  "strip s = strip_chars isspace s"

text \<open>
  \<^verbatim>\<open>s.split(sep)\<close> for a non-empty separator: the pieces between the occurrences of
  \<open>sep\<close>, found from left to right without overlap. (Python raises \<^verbatim>\<open>ValueError\<close> on
  an empty separator; the script only passes literals.)
\<close>

fun add_char :: "char \<Rightarrow> string list \<Rightarrow> string list" where
  "add_char c [] = [[c]]"
| "add_char c (p # ps) = (c # p) # ps"

function split :: "string \<Rightarrow> string \<Rightarrow> string list" where
  "split [] sep = [[]]"
| "split (c # cs) sep =
     (if sep \<noteq> [] \<and> prefix sep (c # cs) then [] # split (drop (length sep) (c # cs)) sep
      else add_char c (split cs sep))"
  by pat_completeness auto
termination
  by (relation "measure (\<lambda>(s, sep). length s)") auto


text \<open>
  A string method called on a value: \<^verbatim>\<open>AttributeError\<close> unless the value is a string.
\<close>

fun str_split :: "json \<Rightarrow> string \<Rightarrow> py_error + string list" where
  "str_split (JStr s) sep = Inr (split s sep)"
| "str_split _ sep = Inl AttributeError"

fun str_strip :: "json \<Rightarrow> py_error + string" where
  "str_strip (JStr s) = Inr (strip s)"
| "str_strip _ = Inl AttributeError"

section \<open>Response parser\<close>

definition fence :: string where
  "fence = ''```''"

definition fence_json :: string where
  "fence_json = ''```json''"

text \<open>\<^verbatim>\<open>content.split(opening)[1].split('```')[0]\<close>\<close>

definition between_fences :: "json \<Rightarrow> string \<Rightarrow> py_error + json" where
  "between_fences content opening =
     bind_exn (str_split content opening) (\<lambda>pieces.
     bind_exn (list_index pieces 1) (\<lambda>piece.
     bind_exn (list_index (split piece fence) 0) (\<lambda>inner.
     Inr (JStr inner))))"

text \<open>\<^verbatim>\<open>llm_response['choices'][0]['message']['content']\<close>\<close>

definition message_content :: "json \<Rightarrow> py_error + json" where
  "message_content llm_response =
     bind_exn (getitem_str llm_response ''choices'') (\<lambda>choices.
     bind_exn (getitem_int choices 0) (\<lambda>choice.
     bind_exn (getitem_str choice ''message'') (\<lambda>message.
     getitem_str message ''content'')))"

text \<open>
  The removal of the code-block markers: the \<^verbatim>\<open>if\<close>/\<^verbatim>\<open>elif\<close> on
  \<^verbatim>\<open>'```json' in content\<close> and \<^verbatim>\<open>'```' in content\<close>.
\<close>

definition strip_fences :: "json \<Rightarrow> py_error + json" where
  "strip_fences content =
     bind_exn (py_contains fence_json content) (\<lambda>tagged.
     if tagged then between_fences content fence_json
     else bind_exn (py_contains fence content) (\<lambda>bare.
          if bare then between_fences content fence else Inr content))"

text \<open>
  The body of the \<^verbatim>\<open>try\<close> block of \<^verbatim>\<open>extract_filenames\<close>. The decoder
  \<^verbatim>\<open>json.loads\<close> is a parameter: \<open>None\<close> stands for its \<^verbatim>\<open>JSONDecodeError\<close>.
\<close>

definition extract_body :: "(string \<Rightarrow> json option) \<Rightarrow> json \<Rightarrow> py_error + json" where
  "extract_body loads llm_response =
     bind_exn (message_content llm_response) (\<lambda>content.
     bind_exn (strip_fences content) (\<lambda>content'.
     bind_exn (str_strip content') (\<lambda>stripped.
     case loads stripped of None \<Rightarrow> Inl JSONDecodeError | Some parsed_json \<Rightarrow> Inr parsed_json)))"

text \<open>\<^verbatim>\<open>except (KeyError, IndexError, json.JSONDecodeError): return None\<close>\<close>

definition caught :: "py_error \<Rightarrow> bool" where
  "caught e = (e = KeyError \<or> e = IndexError \<or> e = JSONDecodeError)"

text \<open>
  \<^verbatim>\<open>extract_filenames\<close>. Python's \<^verbatim>\<open>None\<close> is \<open>JNull\<close>; \<open>Inl e\<close> is an exception
  that leaves the function.
\<close>

definition extract_filenames :: "(string \<Rightarrow> json option) \<Rightarrow> json \<Rightarrow> py_error + json" where
  "extract_filenames loads llm_response =
     (if \<not> truthy llm_response then Inr JNull
      else bind_exn (py_contains ''choices'' llm_response) (\<lambda>has_choices.
        if \<not> has_choices then Inr JNull
        else (case extract_body loads llm_response of
                Inl e \<Rightarrow> if caught e then Inr JNull else Inl e
              | Inr parsed_json \<Rightarrow> Inr parsed_json)))"


section \<open>A decoder for JSON texts\<close>

text \<open>
  \<^verbatim>\<open>json.loads\<close> is library code. The properties of the response parser hold for every
  decoder; to run it on concrete replies, this section gives a decoder for the
  JSON grammar as Python's \<^verbatim>\<open>json\<close> module reads it: white space is space, tab, line
  feed and carriage return; a string may not hold a raw control character; a number
  with a fraction or an exponent is a float, any other an integer; a repeated key keeps
  its first position and its last value. Outside its scope, and rejected here:
  \<^verbatim>\<open>NaN\<close>, \<^verbatim>\<open>Infinity\<close>, and \<^verbatim>\<open>\u\<close> escapes of code points above 255. Also
  outside its scope, where Python differs: a float is kept as the exact value of its
  literal, without the rounding, underflow or overflow of a double; an integer of more
  than 4300 digits and a nesting deeper than the interpreter's recursion limit make
  \<^verbatim>\<open>json.loads\<close> raise \<^verbatim>\<open>ValueError\<close> and \<^verbatim>\<open>RecursionError\<close>, which are no
  \<^verbatim>\<open>JSONDecodeError\<close>, and are decoded here. The recursion is bounded by the length
  of the text. The decoder is applied below only to texts on which the two agree.
\<close>

definition json_ws :: "char \<Rightarrow> bool" where
  "json_ws c = (c = CHR '' '' \<or> c = CHR 0x09 \<or> c = CHR 0x0A \<or> c = CHR 0x0D)"

definition skip_ws :: "string \<Rightarrow> string" where
  "skip_ws s = dropWhile json_ws s"

definition isdigit :: "char \<Rightarrow> bool" where
  "isdigit c = (let n = of_char c :: nat in 48 \<le> n \<and> n \<le> 57)"

definition digit_val :: "char \<Rightarrow> nat" where
  "digit_val c = of_char c - 48"

definition digits_val :: "string \<Rightarrow> nat" where
  "digits_val ds = foldl (\<lambda>acc d. 10 * acc + digit_val d) 0 ds"

definition hex_val :: "char \<Rightarrow> nat option" where
  "hex_val c =
     (let n = of_char c :: nat in
      if 48 \<le> n \<and> n \<le> 57 then Some (n - 48)
      else if 65 \<le> n \<and> n \<le> 70 then Some (n - 55)
      else if 97 \<le> n \<and> n \<le> 102 then Some (n - 87)
      else None)"

definition hex4 :: "char \<Rightarrow> char \<Rightarrow> char \<Rightarrow> char \<Rightarrow> nat option" where
  "hex4 a b c d =
     (case (hex_val a, hex_val b, hex_val c, hex_val d) of
        (Some w, Some x, Some y, Some z) \<Rightarrow> Some (((w * 16 + x) * 16 + y) * 16 + z)
      | _ \<Rightarrow> None)"

definition unescape :: "char \<Rightarrow> char option" where
  "unescape e =
     (if e = CHR 0x22 \<or> e = CHR 0x5C \<or> e = CHR ''/'' then Some e
      else if e = CHR ''b'' then Some (CHR 0x08)
      else if e = CHR ''f'' then Some (CHR 0x0C)
      else if e = CHR ''n'' then Some (CHR 0x0A)
      else if e = CHR ''r'' then Some (CHR 0x0D)
      else if e = CHR ''t'' then Some (CHR 0x09)
      else None)"

text \<open>The characters of a string literal after its opening quote, and the rest.\<close>

fun scan_string :: "string \<Rightarrow> string \<Rightarrow> (string \<times> string) option" where
  "scan_string acc [] = None"
| "scan_string acc (c # cs) =
     (if c = CHR 0x22 then Some (rev acc, cs)
      else if c = CHR 0x5C then
        (case cs of
           [] \<Rightarrow> None
         | e # es \<Rightarrow>
             if e = CHR ''u'' then
               (case es of
                  h1 # h2 # h3 # h4 # rest \<Rightarrow>
                    (case hex4 h1 h2 h3 h4 of
                       None \<Rightarrow> None
                     | Some cp \<Rightarrow> if cp < 256 then scan_string (char_of cp # acc) rest else None)
                | _ \<Rightarrow> None)
             else (case unescape e of None \<Rightarrow> None | Some ch \<Rightarrow> scan_string (ch # acc) es))
      else if (of_char c :: nat) < 32 then None
      else scan_string (c # acc) cs)"

text \<open>
  A number at the start of the text:
  \<^verbatim>\<open>-?(0|[1-9][0-9]*)(\.[0-9]+)?([eE][-+]?[0-9]+)?\<close>, the longest match.
\<close>

definition scan_frac :: "string \<Rightarrow> (string \<times> string) option" where
  "scan_frac s =
     (case s of
        c # d # r \<Rightarrow>
          if c = CHR ''.'' \<and> isdigit d then Some (takeWhile isdigit (d # r), dropWhile isdigit (d # r))
          else None
      | _ \<Rightarrow> None)"

definition scan_exp :: "string \<Rightarrow> (int \<times> string) option" where
  "scan_exp s =
     (case s of
        [] \<Rightarrow> None
      | c # r \<Rightarrow>
          if c = CHR ''e'' \<or> c = CHR ''E'' then
            (let neg = (r \<noteq> [] \<and> hd r = CHR ''-'');
                 r' = (if r \<noteq> [] \<and> (hd r = CHR ''-'' \<or> hd r = CHR ''+'') then tl r else r)
             in if r' \<noteq> [] \<and> isdigit (hd r')
                then Some ((if neg then - 1 else 1) * int (digits_val (takeWhile isdigit r')),
                           dropWhile isdigit r')
                else None)
          else None)"

definition pow10 :: "int \<Rightarrow> rat" where
  "pow10 e = (if 0 \<le> e then 10 ^ nat e else 1 / 10 ^ nat (- e))"

definition scan_number :: "string \<Rightarrow> (json \<times> string) option" where
  "scan_number s =
     (let neg = (s \<noteq> [] \<and> hd s = CHR ''-'');
          r = (if neg then tl s else s)
      in case r of
           [] \<Rightarrow> None
         | d # r' \<Rightarrow>
             if \<not> isdigit d then None
             else
               (let ip = (if d = CHR ''0'' then [d] else d # takeWhile isdigit r');
                    r1 = (if d = CHR ''0'' then r' else dropWhile isdigit r');
                    sgn = (if neg then - 1 else 1 :: int)
                in case (scan_frac r1) of
                     None \<Rightarrow>
                       (case scan_exp r1 of
                          None \<Rightarrow> Some (JInt (sgn * int (digits_val ip)), r1)
                        | Some (e, r3) \<Rightarrow>
                            Some (JFloat (of_int sgn * of_nat (digits_val ip) * pow10 e), r3))
                   | Some (fp, r2) \<Rightarrow>
                       (let m = of_nat (digits_val (ip @ fp)) * pow10 (- int (length fp)) in
                        case scan_exp r2 of
                          None \<Rightarrow> Some (JFloat (of_int sgn * m), r2)
                        | Some (e, r3) \<Rightarrow> Some (JFloat (of_int sgn * m * pow10 e), r3))))"

text \<open>\<^verbatim>\<open>d[k] = v\<close> on a dictionary.\<close>

fun dict_set :: "(string \<times> json) list \<Rightarrow> string \<Rightarrow> json \<Rightarrow> (string \<times> json) list" where
  "dict_set [] k v = [(k, v)]"
| "dict_set ((k', v') # kvs) k v = (if k' = k then (k, v) # kvs else (k', v') # dict_set kvs k v)"

fun parse_value :: "nat \<Rightarrow> string \<Rightarrow> (json \<times> string) option"
  and parse_elems :: "nat \<Rightarrow> json list \<Rightarrow> string \<Rightarrow> (json \<times> string) option"
  and parse_members :: "nat \<Rightarrow> (string \<times> json) list \<Rightarrow> string \<Rightarrow> (json \<times> string) option"
  where
  "parse_value 0 s = None"
| "parse_value (Suc n) s =
     (case s of
        [] \<Rightarrow> None
      | c # cs \<Rightarrow>
          if c = CHR 0x22 then map_option (\<lambda>(str, r). (JStr str, r)) (scan_string [] cs)
          else if c = CHR ''{'' then
            (let r = skip_ws cs in
             if r \<noteq> [] \<and> hd r = CHR ''}'' then Some (JObj [], tl r) else parse_members n [] r)
          else if c = CHR ''['' then
            (let r = skip_ws cs in
             if r \<noteq> [] \<and> hd r = CHR '']'' then Some (JArr [], tl r) else parse_elems n [] r)
          else if prefix ''null'' s then Some (JNull, drop 4 s)
          else if prefix ''true'' s then Some (JBool True, drop 4 s)
          else if prefix ''false'' s then Some (JBool False, drop 5 s)
          else scan_number s)"
| "parse_elems 0 acc s = None"
| "parse_elems (Suc n) acc s =
     (case parse_value n s of
        None \<Rightarrow> None
      | Some (v, r) \<Rightarrow>
          (let r' = skip_ws r in
           if r' \<noteq> [] \<and> hd r' = CHR '']'' then Some (JArr (rev (v # acc)), tl r')
           else if r' \<noteq> [] \<and> hd r' = CHR '','' then parse_elems n (v # acc) (skip_ws (tl r'))
           else None))"
| "parse_members 0 kvs s = None"
| "parse_members (Suc n) kvs s =
     (if s \<noteq> [] \<and> hd s = CHR 0x22 then
        (case scan_string [] (tl s) of
           None \<Rightarrow> None
         | Some (k, r) \<Rightarrow>
             (let r1 = skip_ws r in
              if r1 \<noteq> [] \<and> hd r1 = CHR '':'' then
                (case parse_value n (skip_ws (tl r1)) of
                   None \<Rightarrow> None
                 | Some (v, r2) \<Rightarrow>
                     (let r3 = skip_ws r2; kvs' = dict_set kvs k v in
                      if r3 \<noteq> [] \<and> hd r3 = CHR ''}'' then Some (JObj kvs', tl r3)
                      else if r3 \<noteq> [] \<and> hd r3 = CHR '','' then parse_members n kvs' (skip_ws (tl r3))
                      else None))
              else None))
      else None)"

text \<open>\<^verbatim>\<open>json.loads(s)\<close>: one value, white space around it, nothing else.\<close>

definition json_loads :: "string \<Rightarrow> json option" where
  "json_loads s =
     (case parse_value (Suc (length s)) (skip_ws s) of
        None \<Rightarrow> None
      | Some (v, r) \<Rightarrow> if skip_ws r = [] then Some v else None)"


section \<open>Interactive selector\<close>

text \<open>\<^verbatim>\<open>s.lower()\<close>: the letters A to Z and the accented capitals \<open>0xc0\<close> to
  \<open>0xde\<close> (but the multiplication sign \<open>0xd7\<close>) move up by 32.\<close>

definition lower_char :: "char \<Rightarrow> char" where
  "lower_char c =
     (let n = of_char c :: nat
      in if (65 \<le> n \<and> n \<le> 90) \<or> (192 \<le> n \<and> n \<le> 222 \<and> n \<noteq> 215) then char_of (n + 32) else c)"

definition lower :: "string \<Rightarrow> string" where
  "lower s = map lower_char s"

text \<open>\<^verbatim>\<open>s.replace(' ', '-')\<close>\<close>

definition replace_spaces :: "string \<Rightarrow> string" where
  "replace_spaces s = map (\<lambda>c. if c = CHR '' '' then CHR ''-'' else c) s"

text \<open>
  \<^verbatim>\<open>int(s)\<close> in base ten: white space around the text is ignored, one sign may lead,
  and single underscores may stand between digits. \<open>None\<close> is \<^verbatim>\<open>ValueError\<close>. The
  white space of \<^verbatim>\<open>int\<close> is that of \<^verbatim>\<open>str.isspace\<close> without the four separators
  \<open>0x1c\<close> to \<open>0x1f\<close>. A text of more digits than \<^verbatim>\<open>sys.int_max_str_digits\<close>,
  leading zeros counted and underscores not, is refused with \<^verbatim>\<open>ValueError\<close>; the
  script leaves the limit at its default of 4300.
\<close>

definition int_max_str_digits :: nat where
  "int_max_str_digits = 4300"

definition int_space :: "char \<Rightarrow> bool" where
  "int_space c =
     (let n = of_char c :: nat in (9 \<le> n \<and> n \<le> 13) \<or> n = 32 \<or> n = 133 \<or> n = 160)"

fun digits_us :: "string \<Rightarrow> bool" where
  "digits_us [] = False"
| "digits_us [c] = isdigit c"
| "digits_us (c # d # r) = (isdigit c \<and> (if d = CHR ''_'' then digits_us r else digits_us (d # r)))"

definition py_int :: "string \<Rightarrow> int option" where
  "py_int s =
     (let t = strip_chars int_space s;
          neg = (t \<noteq> [] \<and> hd t = CHR ''-'');
          ds = (if t \<noteq> [] \<and> (hd t = CHR ''-'' \<or> hd t = CHR ''+'') then tl t else t);
          digits = filter (\<lambda>c. c \<noteq> CHR ''_'') ds
      in if digits_us ds \<and> length digits \<le> int_max_str_digits
         then Some ((if neg then - 1 else 1) * int (digits_val digits))
         else None)"

text \<open>
  What \<^verbatim>\<open>for ... in enumerate(x, 1)\<close> runs over: the elements of a list, the
  characters of a string, the keys of a dictionary; \<^verbatim>\<open>TypeError\<close> otherwise.
\<close>

fun py_iter :: "json \<Rightarrow> py_error + json list" where
  "py_iter (JArr xs) = Inr xs"
| "py_iter (JStr s) = Inr (map (\<lambda>c. JStr [c]) s)"
| "py_iter (JObj kvs) = Inr (map (\<lambda>kv. JStr (fst kv)) kvs)"
| "py_iter _ = Inl TypeError"

text \<open>
  What the script writes to the console, one constructor for each \<^verbatim>\<open>print\<close> (and
  for the prompt of \<^verbatim>\<open>input\<close>), carrying the values that the text interpolates.
\<close>

datatype message =
    Suggestions_header              \<comment> \<open>\<^verbatim>\<open>AI-generated filename suggestions:\<close>\<close>
  | Suggestion nat json             \<comment> \<open>\<^verbatim>\<open>  {i}. {filename}\<close>\<close>
  | Prompt nat                      \<comment> \<open>\<^verbatim>\<open>Choose an option (1-{len(filenames)}) or enter custom filename [default: 1]: \<close>\<close>
  | Invalid_selection int           \<comment> \<open>\<^verbatim>\<open>Invalid selection ({selection}), using first option.\<close>\<close>
  | Using_custom string             \<comment> \<open>\<^verbatim>\<open>Using custom filename: {custom_filename}\<close>\<close>
  | Using_first                     \<comment> \<open>\<^verbatim>\<open>Using first option.\<close>\<close>
  | Converted string                \<comment> \<open>\<^verbatim>\<open>Successfully converted to: {output_path}\<close>\<close>
  | Input_size nat                  \<comment> \<open>\<^verbatim>\<open>Input size: {input_size:,} bytes\<close>\<close>
  | Output_size nat                 \<comment> \<open>\<^verbatim>\<open>Output size: {output_size:,} bytes\<close>\<close>
  | Compression_ratio rat           \<comment> \<open>\<^verbatim>\<open>Compression ratio: {compression_ratio:.1f}%\<close>\<close>
  | Error_converting py_error       \<comment> \<open>\<^verbatim>\<open>Error converting image: {e}\<close>\<close>

text \<open>
  The part of \<^verbatim>\<open>select_filename\<close> inside the outer \<^verbatim>\<open>try\<close>, once \<^verbatim>\<open>input\<close>
  has returned a line: the result, and what is printed.
\<close>

definition choose_from :: "json \<Rightarrow> nat \<Rightarrow> string \<Rightarrow> (py_error + json) \<times> message list" where
  "choose_from filenames n line =
     (let user_input = strip line in
      if user_input = [] then (getitem_int filenames 0, [])
      else
        (case py_int user_input of
           Some selection \<Rightarrow>
             if 1 \<le> selection \<and> selection \<le> int n then (getitem_int filenames (selection - 1), [])
             else (getitem_int filenames 0, [Invalid_selection selection])
         | None \<Rightarrow>
             (let custom_filename = replace_spaces (lower user_input)
              in (Inr (JStr custom_filename), [Using_custom custom_filename]))))"

text \<open>
  \<^verbatim>\<open>select_filename\<close>. The second argument is the outcome of the call of
  \<^verbatim>\<open>input\<close>, should it be made: the line typed, or the exception raised
  (\<^verbatim>\<open>KeyboardInterrupt\<close> on cancellation, \<^verbatim>\<open>EOFError\<close> at the end of input).
  The result is the value returned or the exception that escapes, with the console
  output.
\<close>

definition select_filename :: "json \<Rightarrow> py_error + string \<Rightarrow> (py_error + json) \<times> message list" where
  "select_filename filenames_dict typed =
     (if \<not> truthy filenames_dict then (Inr JNull, [])
      else
        (case py_contains ''filenames'' filenames_dict of
           Inl e \<Rightarrow> (Inl e, [])
         | Inr present \<Rightarrow>
             if \<not> present then (Inr JNull, [])
             else
               (case getitem_str filenames_dict ''filenames'' of
                  Inl e \<Rightarrow> (Inl e, [])
                | Inr filenames \<Rightarrow>
                    if \<not> truthy filenames then (Inr JNull, [])
                    else
                      (case py_iter filenames of
                         Inl e \<Rightarrow> (Inl e, [Suggestions_header])
                       | Inr items \<Rightarrow>
                           (let shown = Suggestions_header
                                  # map (\<lambda>(i, filename). Suggestion i filename)
                                      (zip [1..<Suc (length items)] items)
                                  @ [Prompt (length items)]
                            in case typed of
                                 Inl e \<Rightarrow>
                                   if e = ValueError \<or> e = KeyboardInterrupt
                                   then (getitem_int filenames 0, shown @ [Using_first])
                                   else (Inl e, shown)
                               | Inr line \<Rightarrow>
                                   (let (result, printed) = choose_from filenames (length items) line
                                    in (result, shown @ printed)))))))"


section \<open>Operating system\<close>

text \<open>
  What the script sees of its environment, as a snapshot: the home directory of a user
  (of the current user for the empty name), as \<^verbatim>\<open>HOME\<close> or the password database
  give it; the working directory; the names in a directory, in the order in which the
  system lists them (none when it cannot be listed); the directories that
  \<^verbatim>\<open>glob\<close> itself finds for a directory part with wildcards; the modification time
  of a path, in any linear order, the bytes and the size of a file, each of them only
  if the system can read it (a dangling symbolic link is listed and has no time); the
  environment variables. Paths are POSIX paths.
\<close>

record 't os_env =
  userhome :: "string \<Rightarrow> string option"
  getcwd :: string
  listdir :: "string \<Rightarrow> string list"
  glob_dirs :: "string \<Rightarrow> string list"
  getmtime :: "string \<Rightarrow> 't option"
  read_bytes :: "string \<Rightarrow> 8 word list option"
  getsize :: "string \<Rightarrow> nat option"
  getenv :: "string \<Rightarrow> string option"

subsection \<open>Paths\<close>

text \<open>\<^verbatim>\<open>os.path.join(a, b)\<close>\<close>

definition join :: "string \<Rightarrow> string \<Rightarrow> string" where
  "join a b =
     (if prefix ''/'' b then b
      else if a = [] \<or> suffix ''/'' a then a @ b
      else a @ ''/'' @ b)"

text \<open>\<^verbatim>\<open>s.rstrip('/')\<close>\<close>

definition rstrip_slash :: "string \<Rightarrow> string" where
  "rstrip_slash s = rev (dropWhile (\<lambda>c. c = CHR ''/'') (rev s))"

text \<open>
  \<^verbatim>\<open>os.path.expanduser(path)\<close>: a leading \<^verbatim>\<open>~\<close> or \<^verbatim>\<open>~user\<close> is replaced by that
  user's home directory, the path is returned as it is when there is none.
\<close>

definition expanduser :: "'t os_env \<Rightarrow> string \<Rightarrow> string" where
  "expanduser env path =
     (if \<not> prefix ''~'' path then path
      else
        (let name = takeWhile (\<lambda>c. c \<noteq> CHR ''/'') (tl path);
             rest = dropWhile (\<lambda>c. c \<noteq> CHR ''/'') (tl path)
         in case userhome env name of
              None \<Rightarrow> path
            | Some home \<Rightarrow>
                (let expanded = rstrip_slash home @ rest
                 in if expanded = [] then ''/'' else expanded)))"

text \<open>\<^verbatim>\<open>os.path.split(p)\<close>: the part up to the last slash, without its trailing
  slashes unless it has nothing else, and the part after it.\<close>

definition split_path :: "string \<Rightarrow> string \<times> string" where
  "split_path p =
     (let tail = rev (takeWhile (\<lambda>c. c \<noteq> CHR ''/'') (rev p));
          head = rev (dropWhile (\<lambda>c. c \<noteq> CHR ''/'') (rev p))
      in (if head \<noteq> [] \<and> head \<noteq> replicate (length head) (CHR ''/'') then rstrip_slash head
          else head,
          tail))"


text \<open>\<^verbatim>\<open>sep.join(parts)\<close>\<close>

fun sep_join :: "string \<Rightarrow> string list \<Rightarrow> string" where
  "sep_join sep [] = []"
| "sep_join sep [x] = x"
| "sep_join sep (x # y # r) = x @ sep @ sep_join sep (y # r)"

text \<open>
  \<^verbatim>\<open>os.path.normpath(path)\<close>: empty and \<^verbatim>\<open>.\<close> components go, \<^verbatim>\<open>..\<close> removes
  the component before it where there is one; exactly two leading slashes are kept.
\<close>

definition norm_step :: "nat \<Rightarrow> string list \<Rightarrow> string \<Rightarrow> string list" where
  "norm_step initial_slashes new_comps part =
     (if part = [] \<or> part = ''.'' then new_comps
      else if part \<noteq> ''..'' \<or> (initial_slashes = 0 \<and> new_comps = [])
              \<or> (new_comps \<noteq> [] \<and> last new_comps = ''..'')
      then new_comps @ [part]
      else if new_comps \<noteq> [] then butlast new_comps
      else new_comps)"

definition normpath :: "string \<Rightarrow> string" where
  "normpath path =
     (if path = [] then ''.''
      else
        (let initial_slashes =
               (if prefix ''/'' path
                then (if prefix ''//'' path \<and> \<not> prefix ''///'' path then 2 else 1)
                else 0 :: nat);
             comps = foldl (norm_step initial_slashes) [] (split path ''/'');
             joined = replicate initial_slashes (CHR ''/'') @ sep_join ''/'' comps
         in if joined = [] then ''.'' else joined))"

text \<open>\<^verbatim>\<open>os.path.abspath(path)\<close>\<close>

definition abspath :: "'t os_env \<Rightarrow> string \<Rightarrow> string" where
  "abspath env path = normpath (if prefix ''/'' path then path else join (getcwd env) path)"

subsection \<open>Globbing\<close>

text \<open>
  \<^verbatim>\<open>fnmatch.fnmatchcase(name, pat)\<close> for patterns of literal characters, \<^verbatim>\<open>*\<close> (any
  run of characters) and \<^verbatim>\<open>?\<close> (any one character). A bracket expression is not
  covered: the script's pattern has none.
\<close>

fun fnmatchcase :: "string \<Rightarrow> string \<Rightarrow> bool" where
  "fnmatchcase [] [] = True"
| "fnmatchcase (c # cs) [] = False"
| "fnmatchcase [] (p # ps) = (p = CHR ''*'' \<and> fnmatchcase [] ps)"
| "fnmatchcase (c # cs) (p # ps) =
     (if p = CHR ''*'' then fnmatchcase (c # cs) ps \<or> fnmatchcase cs (p # ps)
      else if p = CHR ''?'' then fnmatchcase cs ps
      else c = p \<and> fnmatchcase cs ps)"

definition has_magic :: "string \<Rightarrow> bool" where
  "has_magic s = (\<exists>c \<in> set s. c = CHR ''*'' \<or> c = CHR ''?'' \<or> c = CHR ''['')"

definition ishidden :: "string \<Rightarrow> bool" where
  "ishidden name = prefix ''.'' name"

text \<open>The names of one directory that match a pattern; a hidden name only matches a
  pattern that is hidden itself. The empty directory name is the current directory.\<close>

definition glob1 :: "'t os_env \<Rightarrow> string \<Rightarrow> string \<Rightarrow> string list" where
  "glob1 env dir pat =
     (let names = listdir env (if dir = [] then ''.'' else dir);
          names' = (if ishidden pat then names else filter (\<lambda>x. \<not> ishidden x) names)
      in filter (\<lambda>x. fnmatchcase x pat) names')"

text \<open>
  \<^verbatim>\<open>glob.glob(pathname)\<close> for a path whose last component has a wildcard, as the
  script's always has: the matching names of the directory part, each joined to it, in
  the order of the listing.
\<close>

definition glob :: "'t os_env \<Rightarrow> string \<Rightarrow> string list" where
  "glob env pathname =
     (let (dir, basename) = split_path pathname in
      if dir = [] then glob1 env [] basename
      else
        (let dirs = (if dir \<noteq> pathname \<and> has_magic dir then glob_dirs env dir else [dir])
         in concat (map (\<lambda>d. map (join d) (glob1 env d basename)) dirs)))"

section \<open>File locator\<close>

text \<open>\<^verbatim>\<open>os.path.getmtime(path)\<close>: \<^verbatim>\<open>OSError\<close> when the path has no time to read.\<close>

definition os_path_getmtime :: "'t os_env \<Rightarrow> string \<Rightarrow> py_error + 't" where
  "os_path_getmtime env path = (case getmtime env path of None \<Rightarrow> Inl OSError | Some t \<Rightarrow> Inr t)"

text \<open>
  \<^verbatim>\<open>max(items, key=key)\<close>: the key is computed for each item in turn, an exception
  from it ends the scan, and the running maximum is replaced only by an item whose key
  is strictly greater. On no item at all \<^verbatim>\<open>max\<close> raises \<^verbatim>\<open>ValueError\<close>.
\<close>

fun max_by :: "('a \<Rightarrow> py_error + 'k::linorder) \<Rightarrow> 'a \<Rightarrow> 'k \<Rightarrow> 'a list \<Rightarrow> py_error + 'a" where
  "max_by key maxitem maxval [] = Inr maxitem"
| "max_by key maxitem maxval (item # rest) =
     (case key item of
        Inl e \<Rightarrow> Inl e
      | Inr val \<Rightarrow>
          if maxval < val then max_by key item val rest else max_by key maxitem maxval rest)"

definition py_max :: "('a \<Rightarrow> py_error + 'k::linorder) \<Rightarrow> 'a list \<Rightarrow> py_error + 'a" where
  "py_max key items =
     (case items of
        [] \<Rightarrow> Inl ValueError
      | item # rest \<Rightarrow> bind_exn (key item) (\<lambda>val. max_by key item val rest))"

text \<open>\<^verbatim>\<open>get_scr_img_path\<close>; \<open>Inr None\<close> is the return of \<^verbatim>\<open>None\<close>.\<close>

definition get_scr_img_path :: "('t::linorder) os_env \<Rightarrow> string \<Rightarrow> py_error + string option" where
  "get_scr_img_path env search_path =
     (let expanded_path = expanduser env search_path;
          pattern = join expanded_path ''SCR-*.png'';
          files = glob env pattern
      in if files = [] then Inr None
         else bind_exn (py_max (os_path_getmtime env) files) (\<lambda>newest_file.
              Inr (Some (abspath env newest_file))))"


section \<open>Image encoder and suggestion client\<close>

text \<open>\<^verbatim>\<open>base64.b64encode\<close>: three bytes give four characters of the standard
  alphabet; one or two bytes left over are padded with \<^verbatim>\<open>=\<close>.\<close>

definition b64_alphabet :: string where
  "b64_alphabet = ''ABCDEFGHIJKLMNOPQRSTUVWXYZabcdefghijklmnopqrstuvwxyz0123456789+/''"

definition b64_char :: "nat \<Rightarrow> char" where
  "b64_char n = b64_alphabet ! (n mod 64)"

fun b64encode :: "8 word list \<Rightarrow> string" where
  "b64encode [] = []"
| "b64encode [a] =
     [b64_char (unat a div 4), b64_char (unat a mod 4 * 16), CHR ''='', CHR ''='']"
| "b64encode [a, b] =
     [b64_char (unat a div 4), b64_char (unat a mod 4 * 16 + unat b div 16),
      b64_char (unat b mod 16 * 4), CHR ''='']"
| "b64encode (a # b # c # rest) =
     [b64_char (unat a div 4), b64_char (unat a mod 4 * 16 + unat b div 16),
      b64_char (unat b mod 16 * 4 + unat c div 64), b64_char (unat c mod 64)]
     @ b64encode rest"

text \<open>\<^verbatim>\<open>encode_image_to_base64\<close>: \<^verbatim>\<open>open\<close> raises when the file cannot be read.\<close>

definition encode_image_to_base64 :: "'t os_env \<Rightarrow> string \<Rightarrow> py_error + string" where
  "encode_image_to_base64 env image_path =
     (case read_bytes env image_path of
        None \<Rightarrow> Inl OSError
      | Some image_bytes \<Rightarrow> Inr (b64encode image_bytes))"

definition get_screenshot_data_url :: "('t::linorder) os_env \<Rightarrow> string \<Rightarrow> py_error + string option" where
  "get_screenshot_data_url env search_path =
     bind_exn (get_scr_img_path env search_path) (\<lambda>found.
       case found of
         Some image_path \<Rightarrow>
           bind_exn (encode_image_to_base64 env image_path) (\<lambda>base64_image.
           Inr (Some (''data:image/png;base64,'' @ base64_image)))
       | None \<Rightarrow> Inr None)"

definition MODEL_NAME :: string where
  "MODEL_NAME = ''google/gemma-3-27b-it:free''"

definition PROMPT_GEN_FILENAME :: string where
  \<open>PROMPT_GEN_FILENAME = ''\<newline>You are an AI tasked with generating a concise, meaningful filename for a screenshot. Analyze the content of the screenshot and create a filename that:\<newline>- Reflects the main subject or purpose of the screenshot.\<newline>- Uses all lowercase letters.\<newline>- Separates words with hyphens ("-").\<newline>- Is brief (aim for 3-5 words, max 30 characters).\<newline>- Avoids special characters unless essential.\<newline>- Output at least two options but no more then four options.\<newline>- Output format is json, nothing but json. Do NOT put reasonings in the output.\<newline>Example: For a screenshot of a login page, the filename might be "login-page" or "login-new-user". The output looks like:\<newline>{\<newline>    "filenames": ["login-page", "login-new-user"]\<newline>}\<newline>Based on the provided screenshot, generate a single filename that meets these criteria.\<newline>''\<close>

text \<open>A request as \<^verbatim>\<open>requests.post(url, headers=headers, json=payload)\<close> sends it.\<close>

record request =
  req_url :: string
  req_headers :: "(string \<times> string) list"
  req_json :: json

text \<open>
  \<^verbatim>\<open>llm_gen_filename\<close>. The network is the function \<open>post\<close>: the decoded reply to a
  request, or the exception of \<^verbatim>\<open>requests.post\<close> or \<^verbatim>\<open>response.json\<close>. The
  result comes with the requests that were sent. An unset key is formatted as
  \<^verbatim>\<open>None\<close>.
\<close>

definition llm_gen_filename ::
  "(request \<Rightarrow> py_error + json) \<Rightarrow> ('t::linorder) os_env \<Rightarrow> string \<Rightarrow> (py_error + json) \<times> request list" where
  "llm_gen_filename post env search_path =
     (let url = ''https://openrouter.ai/api/v1/chat/completions'';
          headers =
            [(''Authorization'',
              ''Bearer '' @ (case getenv env ''OPENROUTER_API_KEY'' of None \<Rightarrow> ''None'' | Some k \<Rightarrow> k)),
             (''Content-Type'', ''application/json'')]
      in case get_screenshot_data_url env search_path of
           Inl e \<Rightarrow> (Inl e, [])
         | Inr None \<Rightarrow> (Inr JNull, [])
         | Inr (Some data_url) \<Rightarrow>
             (let messages =
                    JArr [JObj [(''role'', JStr ''user''),
                                (''content'',
                                 JArr [JObj [(''type'', JStr ''text''), (''text'', JStr PROMPT_GEN_FILENAME)],
                                       JObj [(''type'', JStr ''image_url''),
                                             (''image_url'', JObj [(''url'', JStr data_url)])]])]];
                  payload = JObj [(''model'', JStr MODEL_NAME), (''messages'', messages)];
                  sent = \<lparr>req_url = url, req_headers = headers, req_json = payload\<rparr>
              in (post sent, [sent])))"

section \<open>Compressor\<close>




section \<open>Notions used in the statements\<close>

text \<open>
  \<open>first_at sep pre\<close>: in \<open>pre @ sep\<close> the separator occurs nowhere before the end of
  \<open>pre\<close>, so that a scan from the left finds it there first.
\<close>

definition first_at :: "string \<Rightarrow> string \<Rightarrow> bool" where
  "first_at sep pre = list_all (\<lambda>i. \<not> prefix sep (drop i (pre @ sep))) [0..<length pre]"

text \<open>A reply of the API with one choice, whose message has the given content.\<close>

definition reply_with :: "json \<Rightarrow> json" where
  "reply_with content =
     JObj [(''choices'', JArr [JObj [(''message'', JObj [(''content'', content)])]])]"

text \<open>The two suggestions of the specification's examples, as the selector receives them.\<close>

definition two_candidates :: json where
  "two_candidates = JObj [(''filenames'', JArr [JStr ''login-page'', JStr ''login-new-user''])]"

text \<open>
  A file system for the concrete runs: a desktop with an older and a newer screenshot,
  a download directory where the two newest screenshots have the same time, a directory
  with a dangling link of a matching name, and no picture directory.
\<close>

definition home_env :: "nat os_env" where
  "home_env =
     \<lparr>userhome = (\<lambda>u. if u = [] then Some ''/home/u'' else None),
      getcwd = ''/home/u/work'',
      listdir = (\<lambda>d. if d = ''/home/u/Desktop'' then [''SCR-1.png'', ''todo.txt'', ''SCR-2.png'']
                      else if d = ''/home/u/Downloads'' then [''SCR-1.png'', ''SCR-2.png'', ''SCR-3.png'']
                      else if d = ''/home/u/Links'' then [''SCR-1.png'', ''SCR-gone.png'']
                      else []),
      glob_dirs = (\<lambda>d. []),
      getmtime = (\<lambda>p. if p = ''/home/u/Desktop/SCR-1.png'' then Some 3
                       else if p = ''/home/u/Desktop/SCR-2.png'' then Some 7
                       else if p = ''/home/u/Downloads/SCR-1.png'' then Some 5
                       else if p = ''/home/u/Downloads/SCR-2.png'' then Some 9
                       else if p = ''/home/u/Downloads/SCR-3.png'' then Some 9
                       else if p = ''/home/u/Links/SCR-1.png'' then Some 4
                       else None),
      read_bytes = (\<lambda>p. if p = ''/home/u/Desktop/SCR-2.png'' then Some [0x89, 0x50, 0x4E, 0x47]
                         else None),
      getsize = (\<lambda>p. if p = ''/home/u/Desktop/SCR-2.png'' then Some 1000 else None),
      getenv = (\<lambda>v. None)\<rparr>"



text \<open>A network that answers every request with the same reply.\<close>

definition fixed_reply :: "request \<Rightarrow> py_error + json" where
  "fixed_reply sent = Inr (reply_with (JStr ''{}''))"

text \<open>The data URL inside a request: \<^verbatim>\<open>payload['messages'][0]['content'][1]['image_url']['url']\<close>.\<close>

definition transported_url :: "request \<Rightarrow> py_error + json" where
  "transported_url sent =
     bind_exn (getitem_str (req_json sent) ''messages'') (\<lambda>messages.
     bind_exn (getitem_int messages 0) (\<lambda>message.
     bind_exn (getitem_str message ''content'') (\<lambda>parts.
     bind_exn (getitem_int parts 1) (\<lambda>part.
     bind_exn (getitem_str part ''image_url'') (\<lambda>image_url.
     getitem_str image_url ''url'')))))"

section \<open>Properties of the response parser\<close>

lemma first_at_iff: "first_at sep pre \<longleftrightarrow> (\<forall>i<length pre. \<not> prefix sep (drop i (pre @ sep)))"
  by (auto simp: first_at_def list_all_iff)

lemma first_at_Cons: "first_at sep (p # ps) \<Longrightarrow> first_at sep ps"
  unfolding first_at_iff
proof (intro allI impI)
  fix i assume h: "\<forall>i<length (p # ps). \<not> prefix sep (drop i ((p # ps) @ sep))" and i: "i < length ps"
  from h have "\<not> prefix sep (drop (Suc i) ((p # ps) @ sep))" using i by auto
  then show "\<not> prefix sep (drop i (ps @ sep))" by simp
qed

lemma prefix_longer: "length sep \<le> length x \<Longrightarrow> prefix sep (x @ r) \<longleftrightarrow> prefix sep x"
  using prefix_append prefix_length_prefix by blast

lemma split_first:
  "sep \<noteq> [] \<Longrightarrow> first_at sep pre \<Longrightarrow> split (pre @ sep @ rest) sep = pre # split rest sep"
proof (induction pre)
  case Nil
  then obtain c cs where "sep = c # cs" by (cases sep) auto
  then show ?case by simp
next
  case (Cons p ps)
  from Cons.prems(2) have "\<not> prefix sep (drop 0 ((p # ps) @ sep))"
    unfolding first_at_iff by blast
  then have "\<not> prefix sep ((p # ps @ sep) @ rest)"
    using prefix_longer[of sep "p # ps @ sep" rest] by simp
  then have "split ((p # ps) @ sep @ rest) sep = add_char p (split (ps @ sep @ rest) sep)"
    by simp
  also have "\<dots> = add_char p (ps # split rest sep)"
    using Cons.IH[OF Cons.prems(1) first_at_Cons[OF Cons.prems(2)]] by simp
  finally show ?case by simp
qed

lemma split_none: "\<not> sublist sep s \<Longrightarrow> split s sep = [s]"
proof (induction s)
  case Nil then show ?case by simp
next
  case (Cons c cs)
  have 1: "\<not> prefix sep (c # cs)" using Cons.prems by (meson prefix_imp_sublist)
  have 2: "\<not> sublist sep cs" using Cons.prems by (meson sublist_Cons_right)
  show ?case using 1 Cons.IH[OF 2] by simp
qed


lemma first_at_not_in_body:
  assumes "first_at sep body" and "sep \<noteq> []"
  shows "\<not> sublist sep body"
proof
  assume "sublist sep body"
  then obtain ps ss where e: "body = ps @ sep @ ss" by (auto simp: sublist_def)
  then have "length ps < length body" using assms(2) by simp
  moreover have "prefix sep (drop (length ps) (body @ sep))" using e by simp
  ultimately show False using assms(1) unfolding first_at_iff by blast
qed

lemma first_at_no_longer:
  assumes "first_at sep body" and "t \<noteq> []"
  shows "\<not> sublist (sep @ t) (body @ sep)"
proof
  assume "sublist (sep @ t) (body @ sep)"
  then obtain ps ss where e: "body @ sep = ps @ (sep @ t) @ ss" by (auto simp: sublist_def)
  have "length (body @ sep) = length (ps @ (sep @ t) @ ss)" using e by simp
  then have "length ps < length body" using assms(2) by (cases t) auto
  moreover have "prefix sep (drop (length ps) (body @ sep))" unfolding e by simp
  ultimately show False using assms(1) unfolding first_at_iff by blast
qed

lemma fence_json_eq: "fence_json = fence @ ''json''"
  by (simp add: fence_json_def fence_def)

lemma fence_nonempty: "fence \<noteq> []" "fence_json \<noteq> []"
  by (simp_all add: fence_json_def fence_def)

lemma first_at_Nil: "first_at sep []"
  by (simp add: first_at_def)

lemma strip_fences_tagged:
  assumes "first_at fence body"
  shows "strip_fences (JStr (fence_json @ body @ fence)) = Inr (JStr body)"
proof -
  have 1: "sublist fence_json (fence_json @ body @ fence)"
    by (rule prefix_imp_sublist) simp
  have "\<not> sublist fence_json (body @ fence)"
    using first_at_no_longer[OF assms, of "''json''"] by (simp add: fence_json_eq)
  then have 2: "split (fence_json @ body @ fence) fence_json = [[], body @ fence]"
    using split_first[OF fence_nonempty(2) first_at_Nil, of "body @ fence"] split_none by simp
  have 3: "split (body @ fence) fence = [body, []]"
    using split_first[OF fence_nonempty(1) assms, of "[]"] by simp
  show ?thesis
    using 1 by (simp add: strip_fences_def between_fences_def bind_exn_def 2 3 list_index_def)
qed

lemma strip_fences_bare:
  assumes "first_at fence body" and "\<not> sublist fence_json (fence @ body @ fence)"
  shows "strip_fences (JStr (fence @ body @ fence)) = Inr (JStr body)"
proof -
  have 1: "sublist fence (fence @ body @ fence)"
    by (rule prefix_imp_sublist) simp
  have 2: "split (fence @ body @ fence) fence = [[], body, []]"
    using split_first[OF fence_nonempty(1) first_at_Nil, of "body @ fence"]
      split_first[OF fence_nonempty(1) assms(1), of "[]"] by simp
  have 3: "split body fence = [body]"
    using split_none[OF first_at_not_in_body[OF assms(1) fence_nonempty(1)]] .
  show ?thesis
    using 1 assms(2) by (simp add: strip_fences_def between_fences_def bind_exn_def 2 3 list_index_def)
qed

lemma message_content_guard:
  assumes "message_content r = Inr c"
  shows "truthy r \<and> py_contains ''choices'' r = Inr True"
proof (cases r)
  case (JObj kvs)
  with assms obtain v where "map_of kvs ''choices'' = Some v"
    by (auto simp: message_content_def bind_exn_def split: option.splits)
  then have "(''choices'', v) \<in> set kvs" by (rule map_of_SomeD)
  then have "kvs \<noteq> []" and "''choices'' \<in> fst ` set kvs" by force+
  then show ?thesis using JObj by simp
qed (use assms in \<open>simp_all add: message_content_def bind_exn_def\<close>)

lemma extract_filenames_parsed:
  assumes "message_content r = Inr c" and "strip_fences c = Inr (JStr inner)"
    and "loads (strip inner) = Some v"
  shows "extract_filenames loads r = Inr v"
  using message_content_guard[OF assms(1)] assms
  by (simp add: extract_filenames_def extract_body_def bind_exn_def)

text \<open>
  C2, as amended. The content of the message is a body between an opening fence
  (\<^verbatim>\<open>```json\<close>, or a bare \<^verbatim>\<open>```\<close> in a content without \<^verbatim>\<open>```json\<close>) and the closing
  fence, the closing fence is the first \<^verbatim>\<open>```\<close> after the opening one, and the
  decoder accepts the body without the white space around it: then the parser returns
  the decoded value. The witness is the reply of the specification, whose decoded value
  has the list \<^verbatim>\<open>["a", "b"]\<close> under \<^verbatim>\<open>filenames\<close>.
\<close>

theorem extract_filenames_fenced:
  assumes "message_content r = Inr (JStr content)"
    and "content = fence_json @ body @ fence
         \<or> (content = fence @ body @ fence \<and> \<not> sublist fence_json content)"
    and "first_at fence body"
    and "loads (strip body) = Some parsed"
  shows "extract_filenames loads r = Inr parsed"
proof -
  have inner: "strip_fences (JStr content) = Inr (JStr body)"
    using assms(2) strip_fences_tagged[OF assms(3)] strip_fences_bare[OF assms(3)] by auto
  from assms(1) inner assms(4) show ?thesis
    by (rule extract_filenames_parsed)
qed

theorem extract_filenames_fenced_witness:
  \<open>extract_filenames json_loads
     (reply_with (JStr ''```json\<newline>{"filenames":["a","b"]}\<newline>```''))
   = Inr (JObj [(''filenames'', JArr [JStr ''a'', JStr ''b''])])\<close>
proof -
  have 1: \<open>message_content (reply_with (JStr ''```json\<newline>{"filenames":["a","b"]}\<newline>```''))
      = Inr (JStr ''```json\<newline>{"filenames":["a","b"]}\<newline>```'')\<close>
    by (simp add: reply_with_def message_content_def bind_exn_def list_index_def)
  have 2: \<open>''```json\<newline>{"filenames":["a","b"]}\<newline>```''
      = fence_json @ ''\<newline>{"filenames":["a","b"]}\<newline>'' @ fence\<close>
    by (simp add: fence_json_def fence_def)
  have 3: \<open>first_at fence ''\<newline>{"filenames":["a","b"]}\<newline>''\<close>
    by (simp add: first_at_def fence_def)
  have 4: \<open>json_loads (strip ''\<newline>{"filenames":["a","b"]}\<newline>'')
      = Some (JObj [(''filenames'', JArr [JStr ''a'', JStr ''b''])])\<close>
    by (simp add: strip_def strip_chars_def isspace_def json_loads_def skip_ws_def json_ws_def unescape_def)
  show ?thesis
    using extract_filenames_fenced[where loads = json_loads, OF 1 disjI1[OF 2] 3 4] .
qed

text \<open>
  The claim C2 as stated fails on a fenced JSON object that has \<^verbatim>\<open>```\<close> inside a
  string: the text is cut at those back quotes, the rest does not decode, and the parser
  returns \<^verbatim>\<open>None\<close>.
\<close>

theorem fenced_backquotes_counterexample:
  \<open>json_loads ''{"filenames":["a```b"]}'' = Some (JObj [(''filenames'', JArr [JStr ''a```b''])])
   \<and> extract_filenames json_loads
         (reply_with (JStr ''```json\<newline>{"filenames":["a```b"]}\<newline>```'')) = Inr JNull\<close>
  by (simp add: reply_with_def extract_filenames_def extract_body_def message_content_def
      strip_fences_def between_fences_def fence_json_def fence_def caught_def bind_exn_def
      list_index_def strip_def strip_chars_def isspace_def json_loads_def skip_ws_def json_ws_def unescape_def)

text \<open>
  What the handler achieves: an absent reply and a reply without \<^verbatim>\<open>choices\<close> give
  \<^verbatim>\<open>None\<close>, and no \<^verbatim>\<open>KeyError\<close>, \<^verbatim>\<open>IndexError\<close> or \<^verbatim>\<open>JSONDecodeError\<close> leaves
  the parser. The exceptions that can leave it are \<^verbatim>\<open>TypeError\<close> and
  \<^verbatim>\<open>AttributeError\<close>.
\<close>

lemma py_contains_raises: "py_contains k x = Inl e \<Longrightarrow> e = TypeError"
  by (cases x) auto

lemma getitem_str_raises: "getitem_str x k = Inl e \<Longrightarrow> e = KeyError \<or> e = TypeError"
  by (cases x) (auto split: option.splits)

lemma list_index_raises: "list_index xs i = Inl e \<Longrightarrow> e = IndexError"
  by (auto simp: list_index_def split: if_splits)

lemma getitem_int_raises:
  "getitem_int x i = Inl e \<Longrightarrow> e = IndexError \<or> e = KeyError \<or> e = TypeError"
  by (cases x) (auto simp: bind_exn_def dest: list_index_raises split: sum.splits)

lemma message_content_raises:
  "message_content r = Inl e \<Longrightarrow> e = IndexError \<or> e = KeyError \<or> e = TypeError"
  unfolding message_content_def bind_exn_def
  by (auto split: sum.splits dest: getitem_str_raises getitem_int_raises)

lemma between_fences_raises:
  "between_fences c opening = Inl e \<Longrightarrow> e = AttributeError \<or> e = IndexError"
  unfolding between_fences_def bind_exn_def
  by (cases c) (auto split: sum.splits dest: list_index_raises)

lemma strip_fences_raises:
  "strip_fences c = Inl e \<Longrightarrow> e = TypeError \<or> e = AttributeError \<or> e = IndexError"
  unfolding strip_fences_def bind_exn_def
  by (auto split: sum.splits if_splits dest: py_contains_raises between_fences_raises)

lemma str_strip_raises: "str_strip c = Inl e \<Longrightarrow> e = AttributeError"
  by (cases c) auto

lemma extract_body_raises:
  "extract_body loads r = Inl e \<Longrightarrow> caught e \<or> e = TypeError \<or> e = AttributeError"
  unfolding extract_body_def bind_exn_def caught_def
  by (auto split: sum.splits option.splits
      dest: message_content_raises strip_fences_raises str_strip_raises)

lemma extract_filenames_raises:
  "extract_filenames loads r = Inl e \<Longrightarrow> e = TypeError \<or> e = AttributeError"
  unfolding extract_filenames_def bind_exn_def
  by (auto split: sum.splits if_splits dest: py_contains_raises extract_body_raises)

lemma extract_filenames_absent: "extract_filenames loads JNull = Inr JNull"
  by (simp add: extract_filenames_def)

lemma extract_filenames_no_choices:
  "map_of kvs ''choices'' = None \<Longrightarrow> extract_filenames loads (JObj kvs) = Inr JNull"
  by (simp add: extract_filenames_def bind_exn_def map_of_eq_None_iff)

text \<open>
  C5. The parser is to return \<^verbatim>\<open>None\<close> on every malformed reply. It does not on a
  reply whose message content is \<^verbatim>\<open>null\<close>: the test \<^verbatim>\<open>'```json' in content\<close>
  raises \<^verbatim>\<open>TypeError\<close>, which the handler does not name, whatever the decoder.
\<close>

theorem extract_filenames_null_content:
  "extract_filenames loads (reply_with JNull) = Inl TypeError"
  by (simp add: reply_with_def extract_filenames_def extract_body_def message_content_def
      strip_fences_def bind_exn_def list_index_def caught_def)

section \<open>Properties of the interactive selector\<close>

lemma strip_chars_framed:
  assumes "\<forall>c\<in>set a. P c" and "\<forall>c\<in>set b. P c"
    and "t = [] \<or> (\<not> P (hd t) \<and> \<not> P (last t))"
  shows "strip_chars P (a @ t @ b) = t"
proof (cases "t = []")
  case True
  have d: "dropWhile P (a @ b) = []" using assms(1,2) by (auto simp: dropWhile_eq_Nil_conv)
  show ?thesis
    by (simp only: True strip_chars_def append_Nil d rev.simps dropWhile.simps)
next
  case False
  with assms(3) have h: "\<not> P (hd t)" and l: "\<not> P (last t)" by auto
  have "dropWhile P (a @ t @ b) = dropWhile P (t @ b)"
    using assms(1) by (intro dropWhile_append2) auto
  also have "\<dots> = t @ b" using False h by (cases t) auto
  finally have 1: "dropWhile P (a @ t @ b) = t @ b" .
  have "dropWhile P (rev b @ rev t) = dropWhile P (rev t)"
    using assms(2) by (intro dropWhile_append2) auto
  also have "\<dots> = rev t" using False l by (cases "rev t") (auto simp: last_rev hd_rev)
  finally show ?thesis by (simp add: strip_chars_def 1)
qed

lemma strip_chars_decomp:
  "\<exists>a b. s = a @ strip_chars P s @ b \<and> (\<forall>c\<in>set a. P c) \<and> (\<forall>c\<in>set b. P c)"
proof -
  define u where "u = dropWhile P s"
  have "rev (dropWhile P (rev u)) @ rev (takeWhile P (rev u))
      = rev (takeWhile P (rev u) @ dropWhile P (rev u))"
    by (simp only: rev_append)
  also have "\<dots> = rev (rev u)" by (simp only: takeWhile_dropWhile_id)
  finally have u: "u = strip_chars P s @ rev (takeWhile P (rev u))"
    by (simp add: strip_chars_def u_def)
  have "s = takeWhile P s @ u" by (simp add: u_def)
  then have "s = takeWhile P s @ strip_chars P s @ rev (takeWhile P (rev u))"
    using u by simp
  moreover have "\<forall>c\<in>set (takeWhile P s). P c" by (auto dest: set_takeWhileD)
  moreover have "\<forall>c\<in>set (rev (takeWhile P (rev u))). P c" by (auto dest: set_takeWhileD)
  ultimately show ?thesis by blast
qed

lemma strip_chars_ends:
  "strip_chars P s = [] \<or> (\<not> P (hd (strip_chars P s)) \<and> \<not> P (last (strip_chars P s)))"
proof (cases "strip_chars P s = []")
  case False
  define u where "u = dropWhile P s"
  define w where "w = dropWhile P (rev u)"
  have sw: "strip_chars P s = rev w" by (simp add: strip_chars_def u_def w_def)
  with False have wne: "w \<noteq> []" by simp
  then have hw: "\<not> P (hd w)" unfolding w_def by (rule hd_dropWhile)
  have "rev w @ rev (takeWhile P (rev u)) = rev (takeWhile P (rev u) @ dropWhile P (rev u))"
    by (simp only: rev_append w_def)
  also have "\<dots> = rev (rev u)" by (simp only: takeWhile_dropWhile_id)
  finally have "u = rev w @ rev (takeWhile P (rev u))" by simp
  then have "hd u = hd (rev w)" using wne by (metis hd_append2 rev_is_Nil_conv)
  moreover have "u \<noteq> []" using wne w_def by auto
  then have "\<not> P (hd u)" unfolding u_def by (rule hd_dropWhile)
  ultimately have "\<not> P (hd (rev w))" by simp
  moreover have "last (rev w) = hd w" using wne by (simp add: last_rev)
  ultimately show ?thesis using hw sw by simp
qed simp

lemma strip_chars_idem: "strip_chars P (strip_chars P s) = strip_chars P s"
  using strip_chars_framed[of "[]" P "[]" "strip_chars P s"] strip_chars_ends[of P s] by simp

lemma strip_chars_weaker:
  assumes "\<And>c. P c \<Longrightarrow> Q c"
    and "strip_chars P s = [] \<or> (\<not> Q (hd (strip_chars P s)) \<and> \<not> Q (last (strip_chars P s)))"
  shows "strip_chars Q s = strip_chars P s"
proof -
  obtain a b where d: "s = a @ strip_chars P s @ b" and "\<forall>c\<in>set a. P c" and "\<forall>c\<in>set b. P c"
    using strip_chars_decomp[of s P] by blast
  then have "\<forall>c\<in>set a. Q c" and "\<forall>c\<in>set b. Q c" using assms(1) by auto
  then have "strip_chars Q (a @ strip_chars P s @ b) = strip_chars P s"
    using assms(2) by (rule strip_chars_framed)
  then show ?thesis using d by simp
qed

lemma digits_us_ends: "digits_us ds \<Longrightarrow> ds \<noteq> [] \<and> isdigit (hd ds) \<and> isdigit (last ds)"
  by (induction ds rule: digits_us.induct) (auto split: if_splits)

lemma isdigit_not_space: "isdigit c \<Longrightarrow> \<not> isspace c"
  by (auto simp: isdigit_def isspace_def Let_def)

lemma int_space_isspace: "int_space c \<Longrightarrow> isspace c"
  by (auto simp: int_space_def isspace_def Let_def)

lemma py_int_ends:
  assumes "py_int s = Some k"
  shows "strip_chars int_space s \<noteq> [] \<and> \<not> isspace (hd (strip_chars int_space s))
         \<and> \<not> isspace (last (strip_chars int_space s))"
proof -
  define t where "t = strip_chars int_space s"
  define ds where "ds = (if t \<noteq> [] \<and> (hd t = CHR ''-'' \<or> hd t = CHR ''+'') then tl t else t)"
  have "digits_us ds"
    using assms by (auto simp: py_int_def Let_def t_def ds_def split: if_splits)
  then have e: "ds \<noteq> []" "isdigit (hd ds)" "isdigit (last ds)" using digits_us_ends by auto
  then have ne: "t \<noteq> []" by (auto simp: ds_def split: if_splits)
  have sg: "\<not> isspace (CHR ''-'')" "\<not> isspace (CHR ''+'')" by (simp_all add: isspace_def)
  have h: "\<not> isspace (hd t)"
    using e(2) sg isdigit_not_space by (auto simp: ds_def split: if_splits)
  have "last t = last ds" using e(1) ne by (cases t) (auto simp: ds_def split: if_splits)
  then have "\<not> isspace (last t)" using e(3) isdigit_not_space by simp
  then show ?thesis using ne h unfolding t_def by simp
qed

lemma py_int_strip:
  assumes "py_int s = Some k"
  shows "strip s = strip_chars int_space s" and "py_int (strip s) = Some k" and "strip s \<noteq> []"
proof -
  show 1: "strip s = strip_chars int_space s"
    unfolding strip_def using int_space_isspace py_int_ends[OF assms]
    by (intro strip_chars_weaker) auto
  have "strip_chars int_space (strip s) = strip_chars int_space s"
    unfolding 1 by (rule strip_chars_idem)
  then show "py_int (strip s) = Some k" using assms by (simp add: py_int_def)
  show "strip s \<noteq> []" using 1 py_int_ends[OF assms] by simp
qed

text \<open>A run of ones longer than the limit of \<^verbatim>\<open>int\<close> does not read as an integer.\<close>

lemma strip_chars_ones:
  assumes "\<not> P (CHR ''1'')"
  shows "strip_chars P (replicate n (CHR ''1'')) = replicate n (CHR ''1'')"
proof -
  have "dropWhile P (replicate n (CHR ''1'')) = replicate n (CHR ''1'')"
    using assms by (cases n) auto
  moreover have "rev (replicate n (CHR ''1'')) = replicate n (CHR ''1'')" by simp
  ultimately show ?thesis by (simp add: strip_chars_def)
qed

lemma py_int_over_limit:
  assumes "int_max_str_digits < n"
  shows "py_int (replicate n (CHR ''1'')) = None"
proof -
  have s: "strip_chars int_space (replicate n (CHR ''1'')) = replicate n (CHR ''1'')"
    by (rule strip_chars_ones) (simp add: int_space_def)
  have h: "hd (replicate n (CHR ''1'')) = CHR ''1''" using assms by (cases n) auto
  have "filter (\<lambda>c. c \<noteq> CHR ''_'') (replicate n (CHR ''1'')) = replicate n (CHR ''1'')"
    by simp
  then show ?thesis using assms by (simp add: py_int_def s h Let_def)
qed

lemma strip_ones: "strip (replicate n (CHR ''1'')) = replicate n (CHR ''1'')"
  unfolding strip_def by (rule strip_chars_ones) (simp add: isspace_def)

lemma lower_ones: "replace_spaces (lower (replicate n (CHR ''1''))) = replicate n (CHR ''1'')"
  by (simp add: replace_spaces_def lower_def lower_char_def)

lemma select_filename_candidates:
  assumes "map_of kvs ''filenames'' = Some (JArr fs)" and "fs \<noteq> []"
  shows "fst (select_filename (JObj kvs) (Inr line)) = fst (choose_from (JArr fs) (length fs) line)"
    and "set (snd (choose_from (JArr fs) (length fs) line)) \<subseteq> set (snd (select_filename (JObj kvs) (Inr line)))"
    and "fst (select_filename (JObj kvs) (Inl KeyboardInterrupt)) = Inr (fs ! 0)"
proof -
  from assms(1) have "(''filenames'', JArr fs) \<in> set kvs" by (rule map_of_SomeD)
  then have g: "kvs \<noteq> []" "''filenames'' \<in> fst ` set kvs" by force+
  show "fst (select_filename (JObj kvs) (Inr line)) = fst (choose_from (JArr fs) (length fs) line)"
    using g assms by (simp add: select_filename_def Let_def split: prod.splits)
  show "set (snd (choose_from (JArr fs) (length fs) line)) \<subseteq> set (snd (select_filename (JObj kvs) (Inr line)))"
    using g assms by (auto simp add: select_filename_def Let_def split: prod.splits)
  show "fst (select_filename (JObj kvs) (Inl KeyboardInterrupt)) = Inr (fs ! 0)"
    using g assms by (simp add: select_filename_def Let_def list_index_def)
qed

text \<open>
  C3. The selector is given a dictionary whose \<^verbatim>\<open>filenames\<close> is a non-empty list.
  On a line that is empty (or white space only) it returns the first candidate; on a
  line that reads as an integer \<open>k\<close> between 1 and the number of candidates, the
  \<open>k\<close>-th; on an integer outside that range, the first candidate after the warning;
  on \<^verbatim>\<open>KeyboardInterrupt\<close> from the read, the first candidate. To read as an
  integer is to be accepted by \<^verbatim>\<open>int\<close>, which refuses a text of more than 4300
  digits.
\<close>

theorem select_filename_contract:
  assumes "map_of kvs ''filenames'' = Some (JArr fs)" and "fs \<noteq> []"
  shows "(strip line = [] \<longrightarrow> fst (select_filename (JObj kvs) (Inr line)) = Inr (fs ! 0))
    \<and> (\<forall>k. py_int line = Some k \<and> 1 \<le> k \<and> k \<le> int (length fs) \<longrightarrow>
          fst (select_filename (JObj kvs) (Inr line)) = Inr (fs ! nat (k - 1)))
    \<and> (\<forall>k. py_int line = Some k \<and> (k < 1 \<or> int (length fs) < k) \<longrightarrow>
          fst (select_filename (JObj kvs) (Inr line)) = Inr (fs ! 0)
          \<and> Invalid_selection k \<in> set (snd (select_filename (JObj kvs) (Inr line))))
    \<and> fst (select_filename (JObj kvs) (Inl KeyboardInterrupt)) = Inr (fs ! 0)"
proof -
  note c = select_filename_candidates[OF assms]
  have e: "strip line = [] \<Longrightarrow> fst (choose_from (JArr fs) (length fs) line) = Inr (fs ! 0)"
    using assms(2) by (simp add: choose_from_def list_index_def)
  have i: "fst (choose_from (JArr fs) (length fs) line) = Inr (fs ! nat (k - 1))"
    if "py_int line = Some k" "1 \<le> k" "k \<le> int (length fs)" for k
    using that py_int_strip(2,3)[OF that(1)]
    by (simp add: choose_from_def Let_def list_index_def)
  have o: "fst (choose_from (JArr fs) (length fs) line) = Inr (fs ! 0)
      \<and> Invalid_selection k \<in> set (snd (choose_from (JArr fs) (length fs) line))"
    if "py_int line = Some k" "k < 1 \<or> int (length fs) < k" for k
    using that py_int_strip(2,3)[OF that(1)] assms(2)
    by (auto simp add: choose_from_def Let_def list_index_def)
  show ?thesis
  proof (intro conjI allI impI)
    assume "strip line = []"
    then show "fst (select_filename (JObj kvs) (Inr line)) = Inr (fs ! 0)"
      using c(1) e by simp
  next
    fix k assume "py_int line = Some k \<and> 1 \<le> k \<and> k \<le> int (length fs)"
    then show "fst (select_filename (JObj kvs) (Inr line)) = Inr (fs ! nat (k - 1))"
      using c(1) i by simp
  next
    fix k assume h: "py_int line = Some k \<and> (k < 1 \<or> int (length fs) < k)"
    then show "fst (select_filename (JObj kvs) (Inr line)) = Inr (fs ! 0)"
      using c(1) o by simp
    from h show "Invalid_selection k \<in> set (snd (select_filename (JObj kvs) (Inr line)))"
      using c(2) o by blast
  next
    show "fst (select_filename (JObj kvs) (Inl KeyboardInterrupt)) = Inr (fs ! 0)"
      by (rule c(3))
  qed
qed

text \<open>
  The end of the input is no cancellation: \<^verbatim>\<open>EOFError\<close> is not named by the handler
  and leaves the selector, after the suggestions and the prompt were printed.
\<close>

lemma select_filename_eof:
  assumes "map_of kvs ''filenames'' = Some (JArr fs)" and "fs \<noteq> []"
  shows "fst (select_filename (JObj kvs) (Inl EOFError)) = Inl EOFError"
proof -
  from assms(1) have "(''filenames'', JArr fs) \<in> set kvs" by (rule map_of_SomeD)
  then have "kvs \<noteq> []" "''filenames'' \<in> fst ` set kvs" by force+
  then show ?thesis using assms by (simp add: select_filename_def Let_def)
qed

text \<open>
  C4, as amended. Take the line without the white space around it. When this text is
  not empty and does not read as an integer, it gives the custom filename: the same
  text in lower case, each space replaced by a hyphen, and nothing else changed. A
  text that \<^verbatim>\<open>int\<close> refuses for its more than 4300 digits is such a text: the second
  half of the witness is a line of 4301 ones.
\<close>

theorem select_filename_custom:
  assumes "map_of kvs ''filenames'' = Some (JArr fs)" and "fs \<noteq> []"
    and "strip line \<noteq> []" and "py_int (strip line) = None"
  shows "fst (select_filename (JObj kvs) (Inr line)) = Inr (JStr (replace_spaces (lower (strip line))))"
  using select_filename_candidates(1)[OF assms(1,2)] assms(3,4)
  by (simp add: choose_from_def Let_def)

theorem select_filename_contract_witness:
  "fst (select_filename two_candidates (Inr [])) = Inr (JStr ''login-page'')
   \<and> fst (select_filename two_candidates (Inr ''2'')) = Inr (JStr ''login-new-user'')
   \<and> fst (select_filename two_candidates (Inr ''3'')) = Inr (JStr ''login-page'')
   \<and> Invalid_selection 3 \<in> set (snd (select_filename two_candidates (Inr ''3'')))
   \<and> fst (select_filename two_candidates (Inl KeyboardInterrupt)) = Inr (JStr ''login-page'')"
proof -
  have m: "map_of [(''filenames'', JArr [JStr ''login-page'', JStr ''login-new-user''])] ''filenames''
      = Some (JArr [JStr ''login-page'', JStr ''login-new-user''])"
    by simp
  have n: "[JStr ''login-page'', JStr ''login-new-user''] \<noteq> []" by simp
  have s0: "strip [] = []" by (simp add: strip_def strip_chars_def)
  have p2: "py_int ''2'' = Some 2"
    by (simp add: py_int_def strip_def strip_chars_def isspace_def int_space_def isdigit_def digits_val_def digit_val_def int_max_str_digits_def)
  have p3: "py_int ''3'' = Some 3"
    by (simp add: py_int_def strip_def strip_chars_def isspace_def int_space_def isdigit_def digits_val_def digit_val_def int_max_str_digits_def)
  show ?thesis
    unfolding two_candidates_def
    using select_filename_contract[OF m n, of "[]"] select_filename_contract[OF m n, of "''2''"]
      select_filename_contract[OF m n, of "''3''"] s0 p2 p3
    by simp
qed

theorem select_filename_custom_witness:
  "fst (select_filename two_candidates (Inr ''My Custom Name'')) = Inr (JStr ''my-custom-name'')
   \<and> fst (select_filename two_candidates (Inr (replicate 4301 (CHR ''1''))))
       = Inr (JStr (replicate 4301 (CHR ''1'')))"
proof -
  have m: "map_of [(''filenames'', JArr [JStr ''login-page'', JStr ''login-new-user''])] ''filenames''
      = Some (JArr [JStr ''login-page'', JStr ''login-new-user''])"
    by simp
  have n: "[JStr ''login-page'', JStr ''login-new-user''] \<noteq> []" by simp
  have s: "strip ''My Custom Name'' = ''My Custom Name''" by (simp add: strip_def strip_chars_def isspace_def)
  have p: "py_int (strip ''My Custom Name'') = None"
    by (simp add: py_int_def s strip_chars_def int_space_def isdigit_def)
  have l: "replace_spaces (lower ''My Custom Name'') = ''my-custom-name''"
    by code_simp
  have 1: "fst (select_filename two_candidates (Inr ''My Custom Name'')) = Inr (JStr ''my-custom-name'')"
    unfolding two_candidates_def
    using select_filename_custom[OF m n _ p] s l by simp
  have ne: "strip (replicate 4301 (CHR ''1'')) \<noteq> []"
    unfolding strip_ones by simp
  have "int_max_str_digits < 4301" by (simp add: int_max_str_digits_def)
  then have p': "py_int (strip (replicate 4301 (CHR ''1''))) = None"
    unfolding strip_ones by (rule py_int_over_limit)
  have 2: "fst (select_filename two_candidates (Inr (replicate 4301 (CHR ''1''))))
       = Inr (JStr (replicate 4301 (CHR ''1'')))"
    unfolding two_candidates_def
    using select_filename_custom[OF m n ne p'] by (simp only: strip_ones lower_ones)
  from 1 2 show ?thesis by (rule conjI)
qed

text \<open>
  The claim C4 as stated fails on a line with white space around the name: lower case
  and hyphens alone would give \<^verbatim>\<open>-my-name\<close>, the selector returns \<^verbatim>\<open>my-name\<close>.
\<close>

theorem custom_input_stripped_counterexample:
  "'' My Name'' \<noteq> [] \<and> py_int '' My Name'' = None
   \<and> fst (select_filename two_candidates (Inr '' My Name'')) = Inr (JStr ''my-name'')
   \<and> replace_spaces (lower '' My Name'') = ''-my-name''"
  by code_simp

lemma select_filename_rejects:
  assumes "map_of kvs ''filenames'' = None \<or> map_of kvs ''filenames'' = Some (JArr [])"
  shows "select_filename (JObj kvs) typed = (Inr JNull, [])"
  using assms
proof
  assume "map_of kvs ''filenames'' = None"
  then have "''filenames'' \<notin> fst ` set kvs" by (simp add: map_of_eq_None_iff)
  then show ?thesis by (simp add: select_filename_def)
next
  assume a: "map_of kvs ''filenames'' = Some (JArr [])"
  then have "(''filenames'', JArr []) \<in> set kvs" by (rule map_of_SomeD)
  then have "kvs \<noteq> []" "''filenames'' \<in> fst ` set kvs" by force+
  then show ?thesis using a by (simp add: select_filename_def)
qed

text \<open>
  C10. When the content of the message, its fences removed and the white space around
  it stripped, decodes to a value, the parser returns that value, whatever it is. A
  decoded dictionary without the key \<^verbatim>\<open>filenames\<close>, or with an empty list under it,
  is turned into \<^verbatim>\<open>None\<close> by the selector, which prints nothing and reads no input.
\<close>

theorem parsed_value_unchecked:
  assumes "message_content r = Inr content" and "strip_fences content = Inr (JStr inner)"
    and "loads (strip inner) = Some v"
  shows "extract_filenames loads r = Inr v
    \<and> (\<forall>kvs. v = JObj kvs
          \<and> (map_of kvs ''filenames'' = None \<or> map_of kvs ''filenames'' = Some (JArr []))
          \<longrightarrow> select_filename v typed = (Inr JNull, []))"
proof
  from assms show "extract_filenames loads r = Inr v" by (rule extract_filenames_parsed)
  show "\<forall>kvs. v = JObj kvs
          \<and> (map_of kvs ''filenames'' = None \<or> map_of kvs ''filenames'' = Some (JArr []))
          \<longrightarrow> select_filename v typed = (Inr JNull, [])"
    using select_filename_rejects by blast
qed

theorem parsed_value_unchecked_witness:
  \<open>extract_filenames json_loads (reply_with (JStr ''{"names":["a"]}''))
     = Inr (JObj [(''names'', JArr [JStr ''a''])])
   \<and> select_filename (JObj [(''names'', JArr [JStr ''a''])]) (Inr ''1'') = (Inr JNull, [])
   \<and> extract_filenames json_loads (reply_with (JStr ''```json {"filenames":[]} ```''))
     = Inr (JObj [(''filenames'', JArr [])])
   \<and> select_filename (JObj [(''filenames'', JArr [])]) (Inr ''1'') = (Inr JNull, [])\<close>
proof -
  have c1: \<open>message_content (reply_with (JStr ''{"names":["a"]}'')) = Inr (JStr ''{"names":["a"]}'')\<close>
    by (simp add: reply_with_def message_content_def bind_exn_def list_index_def)
  have f1: \<open>strip_fences (JStr ''{"names":["a"]}'') = Inr (JStr ''{"names":["a"]}'')\<close>
    by (simp add: strip_fences_def bind_exn_def fence_json_def fence_def sublist_code)
  have l1: \<open>json_loads (strip ''{"names":["a"]}'') = Some (JObj [(''names'', JArr [JStr ''a''])])\<close>
    by (simp add: strip_def strip_chars_def isspace_def json_loads_def skip_ws_def json_ws_def unescape_def)
  have c2: \<open>message_content (reply_with (JStr ''```json {"filenames":[]} ```''))
      = Inr (JStr ''```json {"filenames":[]} ```'')\<close>
    by (simp add: reply_with_def message_content_def bind_exn_def list_index_def)
  have f2: \<open>strip_fences (JStr ''```json {"filenames":[]} ```'') = Inr (JStr '' {"filenames":[]} '')\<close>
    by (simp add: strip_fences_def between_fences_def bind_exn_def fence_json_def fence_def list_index_def)
  have l2: \<open>json_loads (strip '' {"filenames":[]} '') = Some (JObj [(''filenames'', JArr [])])\<close>
    by (simp add: strip_def strip_chars_def isspace_def json_loads_def skip_ws_def json_ws_def unescape_def)
  show ?thesis
    using parsed_value_unchecked[where loads = json_loads and typed = "Inr ''1''", OF c1 f1 l1]
      parsed_value_unchecked[where loads = json_loads and typed = "Inr ''1''", OF c2 f2 l2]
    by simp
qed

section \<open>Properties of the file locator\<close>

lemma max_by_total:
  assumes "\<forall>x\<in>set xs. key x = Inr (k x)"
  shows "\<exists>m. max_by key b (k b) xs = Inr m \<and> m \<in> set (b # xs) \<and> (\<forall>g\<in>set (b # xs). k g \<le> k m)"
  using assms
proof (induction xs arbitrary: b)
  case Nil
  then show ?case by simp
next
  case (Cons x xs)
  then have kx: "key x = Inr (k x)" and rest: "\<forall>y\<in>set xs. key y = Inr (k y)" by auto
  show ?case
  proof (cases "k b < k x")
    case True
    from Cons.IH[OF rest, of x] obtain m where m: "max_by key x (k x) xs = Inr m"
      "m \<in> set (x # xs)" "\<forall>g\<in>set (x # xs). k g \<le> k m" by blast
    then have "k b \<le> k m" using True by force
    then show ?thesis using m kx True by auto
  next
    case False
    from Cons.IH[OF rest, of b] obtain m where m: "max_by key b (k b) xs = Inr m"
      "m \<in> set (b # xs)" "\<forall>g\<in>set (b # xs). k g \<le> k m" by blast
    then have "k x \<le> k m" using False by force
    then show ?thesis using m kx False by auto
  qed
qed

lemma max_by_keeps:
  "\<forall>g\<in>set post. key g = Inr (k g) \<and> k g \<le> k m \<Longrightarrow> max_by key m (k m) post = Inr m"
  by (induction post) (auto simp: not_less)

lemma max_by_first:
  assumes "\<forall>g\<in>set pre. key g = Inr (k g) \<and> k g < k m" and "k b < k m" and "key m = Inr (k m)"
    and "\<forall>g\<in>set post. key g = Inr (k g) \<and> k g \<le> k m"
  shows "max_by key b (k b) (pre @ m # post) = Inr m"
  using assms(1,2)
proof (induction pre arbitrary: b)
  case Nil
  then show ?case using assms(3) max_by_keeps[OF assms(4)] by simp
next
  case (Cons x pre)
  then have kx: "key x = Inr (k x)" "k x < k m" and rest: "\<forall>g\<in>set pre. key g = Inr (k g) \<and> k g < k m"
    by auto
  show ?case
    using kx Cons.IH[OF rest kx(2)] Cons.IH[OF rest Cons.prems(2)] by simp
qed

lemma max_by_raises:
  assumes "\<exists>x\<in>set xs. key x = Inl e0" and "\<forall>x\<in>set xs. \<forall>e. key x = Inl e \<longrightarrow> e = e0"
  shows "max_by key b kb xs = Inl e0"
  using assms
proof (induction xs arbitrary: b kb)
  case Nil
  then show ?case by simp
next
  case (Cons x xs)
  show ?case
  proof (cases "key x")
    case (Inl e)
    then show ?thesis using Cons.prems(2) by simp
  next
    case (Inr v)
    then have "\<exists>y\<in>set xs. key y = Inl e0" using Cons.prems(1) by auto
    moreover have "\<forall>y\<in>set xs. \<forall>e. key y = Inl e \<longrightarrow> e = e0" using Cons.prems(2) by simp
    ultimately show ?thesis using Inr Cons.IH by simp
  qed
qed

lemma py_max_total:
  assumes "items \<noteq> []" and "\<forall>x\<in>set items. key x = Inr (k x)"
  shows "\<exists>m. py_max key items = Inr m \<and> m \<in> set items \<and> (\<forall>g\<in>set items. k g \<le> k m)"
proof (cases items)
  case Nil
  with assms(1) show ?thesis by simp
next
  case (Cons f fs)
  then have "key f = Inr (k f)" and "\<forall>x\<in>set fs. key x = Inr (k x)" using assms(2) by auto
  then show ?thesis
    using max_by_total[of fs key k f] Cons by (simp add: py_max_def bind_exn_def)
qed

lemma py_max_first:
  assumes "\<forall>g\<in>set pre. key g = Inr (k g) \<and> k g < k m" and "key m = Inr (k m)"
    and "\<forall>g\<in>set post. key g = Inr (k g) \<and> k g \<le> k m"
  shows "py_max key (pre @ m # post) = Inr m"
proof (cases pre)
  case Nil
  then show ?thesis using assms(2) max_by_keeps[OF assms(3)] by (simp add: py_max_def bind_exn_def)
next
  case (Cons b pre')
  then have "\<forall>g\<in>set pre'. key g = Inr (k g) \<and> k g < k m" and "k b < k m" and "key b = Inr (k b)"
    using assms(1) by auto
  then show ?thesis
    using max_by_first[OF _ _ assms(2,3), of pre' b] Cons by (simp add: py_max_def bind_exn_def)
qed

lemma py_max_raises:
  assumes "\<exists>x\<in>set items. key x = Inl e0" and "\<forall>x\<in>set items. \<forall>e. key x = Inl e \<longrightarrow> e = e0"
  shows "py_max key items = Inl e0"
proof (cases items)
  case Nil
  with assms(1) show ?thesis by simp
next
  case (Cons f fs)
  show ?thesis
  proof (cases "key f")
    case (Inl e)
    then show ?thesis using assms(2) Cons by (simp add: py_max_def bind_exn_def)
  next
    case (Inr v)
    then have "\<exists>x\<in>set fs. key x = Inl e0" using assms(1) Cons by auto
    moreover have "\<forall>x\<in>set fs. \<forall>e. key x = Inl e \<longrightarrow> e = e0" using assms(2) Cons by simp
    ultimately show ?thesis using Inr Cons max_by_raises[of fs key e0 f v]
      by (simp add: py_max_def bind_exn_def)
  qed
qed

lemma getmtime_Some: "getmtime env f = Some t \<Longrightarrow> os_path_getmtime env f = Inr t"
  by (simp add: os_path_getmtime_def)

lemma getmtime_raises: "os_path_getmtime env f = Inl e \<longleftrightarrow> getmtime env f = None \<and> e = OSError"
  by (auto simp: os_path_getmtime_def split: option.splits)

lemma normpath_absolute:
  assumes "prefix ''/'' p"
  shows "prefix ''/'' (normpath p)"
proof -
  from assms have ne: "p \<noteq> []" by auto
  define n where "n = (if prefix ''//'' p \<and> \<not> prefix ''///'' p then 2 else 1 :: nat)"
  obtain k where k: "n = Suc k" by (cases n) (auto simp: n_def split: if_splits)
  have "normpath p = replicate n (CHR ''/'') @ sep_join ''/'' (foldl (norm_step n) [] (split p ''/''))"
    using assms ne k by (simp add: normpath_def n_def Let_def)
  then show ?thesis by (simp add: k)
qed

lemma abspath_absolute:
  assumes "prefix ''/'' (getcwd env)"
  shows "prefix ''/'' (abspath env p)"
proof -
  have "prefix ''/'' (if prefix ''/'' p then p else join (getcwd env) p)"
    using assms by (auto simp: join_def prefix_def)
  then show ?thesis unfolding abspath_def by (rule normpath_absolute)
qed

lemma fnmatchcase_literal:
  "\<forall>c\<in>set q. c \<noteq> CHR ''*'' \<and> c \<noteq> CHR ''?'' \<Longrightarrow> fnmatchcase n q \<longleftrightarrow> n = q"
  by (induction n q rule: fnmatchcase.induct) auto

lemma fnmatchcase_star:
  assumes "\<forall>c\<in>set q. c \<noteq> CHR ''*'' \<and> c \<noteq> CHR ''?''"
  shows "fnmatchcase n (CHR ''*'' # q) \<longleftrightarrow> suffix q n"
proof (induction n)
  case Nil
  show ?case using fnmatchcase_literal[OF assms, of "[]"] by auto
next
  case (Cons c cs)
  show ?case using fnmatchcase_literal[OF assms, of "c # cs"] Cons by (auto simp: suffix_Cons)
qed

lemma fnmatchcase_Cons_literal:
  "p \<noteq> CHR ''*'' \<Longrightarrow> p \<noteq> CHR ''?'' \<Longrightarrow>
     fnmatchcase n (p # ps) \<longleftrightarrow> (\<exists>t. n = p # t \<and> fnmatchcase t ps)"
  by (cases n) auto

lemma fnmatchcase_scr:
  "fnmatchcase n ''SCR-*.png'' \<longleftrightarrow> (\<exists>mid. n = ''SCR-'' @ mid @ ''.png'')"
proof -
  have star: "fnmatchcase t ''*.png'' \<longleftrightarrow> (\<exists>mid. t = mid @ ''.png'')" for t
    using fnmatchcase_star[of "''.png''" t] by (simp add: suffix_def)
  have "fnmatchcase n ''SCR-*.png'' \<longleftrightarrow> (\<exists>t. n = ''SCR-'' @ t \<and> fnmatchcase t ''*.png'')"
    by (auto simp add: fnmatchcase_Cons_literal)
  then show ?thesis unfolding star by auto
qed

lemma split_path_join:
  assumes "CHR ''/'' \<notin> set b"
  shows "snd (split_path (join e b)) = b"
proof -
  have nb: "\<not> prefix ''/'' b" using assms by (cases b) auto
  have tw: "takeWhile (\<lambda>c. c \<noteq> CHR ''/'') (rev b @ r) = rev b @ takeWhile (\<lambda>c. c \<noteq> CHR ''/'') r" for r
    using assms by (intro takeWhile_append2) auto
  show ?thesis
  proof (cases "e = [] \<or> suffix ''/'' e")
    case True
    then have "takeWhile (\<lambda>c. c \<noteq> CHR ''/'') (rev e) = []"
      by (auto simp: suffix_def)
    then show ?thesis using True nb tw[of "rev e"] by (simp add: split_path_def join_def Let_def)
  next
    case False
    then show ?thesis using nb tw[of "CHR ''/'' # rev e"] by (simp add: split_path_def join_def Let_def)
  qed
qed

lemma glob1_scr:
  "n \<in> set (glob1 env d ''SCR-*.png'') \<longleftrightarrow>
     n \<in> set (listdir env (if d = [] then ''.'' else d)) \<and> (\<exists>mid. n = ''SCR-'' @ mid @ ''.png'')"
proof -
  have "\<not> ishidden n" if "\<exists>mid. n = ''SCR-'' @ mid @ ''.png''"
    using that by (auto simp: ishidden_def)
  then show ?thesis
    by (auto simp: glob1_def Let_def ishidden_def fnmatchcase_scr)
qed

lemma glob_scr:
  assumes "f \<in> set (glob env (join e ''SCR-*.png''))"
  shows "\<exists>d n mid. f = join d n \<and> n = ''SCR-'' @ mid @ ''.png''
           \<and> n \<in> set (listdir env (if d = [] then ''.'' else d))"
proof -
  obtain dir where sp: "split_path (join e ''SCR-*.png'') = (dir, ''SCR-*.png'')"
    using split_path_join[of "''SCR-*.png''" e] by (cases "split_path (join e ''SCR-*.png'')") simp
  show ?thesis
  proof (cases "dir = []")
    case True
    then have "f \<in> set (glob1 env [] ''SCR-*.png'')" using assms sp by (simp add: glob_def)
    then have l: "f \<in> set (listdir env ''.'')" and "\<exists>mid. f = ''SCR-'' @ mid @ ''.png''"
      using glob1_scr[of f env "[]"] by auto
    then obtain mid where m: "f = ''SCR-'' @ mid @ ''.png''" by blast
    have j: "f = join [] f" using m by (simp add: join_def)
    have "f = join [] f \<and> f = ''SCR-'' @ mid @ ''.png''
        \<and> f \<in> set (listdir env (if ([]::string) = [] then ''.'' else []))"
      using l m j by simp
    then show ?thesis by blast
  next
    case False
    then obtain d n where "f = join d n" and "n \<in> set (glob1 env d ''SCR-*.png'')"
      using assms sp by (auto simp: glob_def Let_def)
    then show ?thesis using glob1_scr[of n env d] by blast
  qed
qed
text \<open>
  C1, as amended. Let \<open>files\<close> be what \<^verbatim>\<open>glob\<close> finds for \<^verbatim>\<open>SCR-*.png\<close> in the
  expanded search path. When there is none the locator returns \<^verbatim>\<open>None\<close> and raises
  nothing. When there are some and the modification time of each can be read, it
  returns the absolute form of one of them whose time is the greatest; the result
  begins with a slash when the working directory does. When the time of one of them
  cannot be read, \<^verbatim>\<open>OSError\<close> leaves the locator. Each of the files is a listed name
  of the shape \<^verbatim>\<open>SCR-\<close>...\<^verbatim>\<open>.png\<close> joined to its directory.
\<close>

theorem get_scr_img_path_newest:
  assumes "files = glob env (join (expanduser env search_path) ''SCR-*.png'')"
  shows "(files = [] \<longrightarrow> get_scr_img_path env search_path = Inr None)
    \<and> (files \<noteq> [] \<and> (\<forall>f\<in>set files. getmtime env f = Some (mtime f)) \<longrightarrow>
         (\<exists>f\<in>set files. get_scr_img_path env search_path = Inr (Some (abspath env f))
            \<and> (\<forall>g\<in>set files. mtime g \<le> mtime f)
            \<and> (prefix ''/'' (getcwd env) \<longrightarrow> prefix ''/'' (abspath env f))))
    \<and> ((\<exists>f\<in>set files. getmtime env f = None) \<longrightarrow>
         get_scr_img_path env search_path = Inl OSError)
    \<and> (\<forall>f\<in>set files. \<exists>d n mid. f = join d n \<and> n = ''SCR-'' @ mid @ ''.png''
           \<and> n \<in> set (listdir env (if d = [] then ''.'' else d)))"
proof (intro conjI impI)
  assume "files = []"
  then show "get_scr_img_path env search_path = Inr None"
    using assms by (simp add: get_scr_img_path_def)
next
  assume h: "files \<noteq> [] \<and> (\<forall>f\<in>set files. getmtime env f = Some (mtime f))"
  then have "\<forall>f\<in>set files. os_path_getmtime env f = Inr (mtime f)"
    by (simp add: getmtime_Some)
  with h obtain m where m: "py_max (os_path_getmtime env) files = Inr m" "m \<in> set files"
    "\<forall>g\<in>set files. mtime g \<le> mtime m"
    using py_max_total[of files "os_path_getmtime env" mtime] by blast
  have "get_scr_img_path env search_path = Inr (Some (abspath env m))"
    using assms[symmetric] h m(1) by (simp add: get_scr_img_path_def bind_exn_def)
  then show "\<exists>f\<in>set files. get_scr_img_path env search_path = Inr (Some (abspath env f))
            \<and> (\<forall>g\<in>set files. mtime g \<le> mtime f)
            \<and> (prefix ''/'' (getcwd env) \<longrightarrow> prefix ''/'' (abspath env f))"
    using m(2,3) abspath_absolute by blast
next
  assume h: "\<exists>f\<in>set files. getmtime env f = None"
  then have ne: "files \<noteq> []" by auto
  have "\<exists>f\<in>set files. os_path_getmtime env f = Inl OSError"
    using h by (simp add: getmtime_raises)
  moreover have "\<forall>f\<in>set files. \<forall>e. os_path_getmtime env f = Inl e \<longrightarrow> e = OSError"
    by (simp add: getmtime_raises)
  ultimately have "py_max (os_path_getmtime env) files = Inl OSError"
    by (rule py_max_raises)
  then show "get_scr_img_path env search_path = Inl OSError"
    using assms[symmetric] ne by (simp add: get_scr_img_path_def bind_exn_def)
next
  show "\<forall>f\<in>set files. \<exists>d n mid. f = join d n \<and> n = ''SCR-'' @ mid @ ''.png''
           \<and> n \<in> set (listdir env (if d = [] then ''.'' else d))"
    unfolding assms using glob_scr by blast
qed

text \<open>
  C9, as amended. Among the files found, all with a modification time, the one
  returned is the first in the order of the listing whose time is the greatest: every
  file before it is strictly older, no file after it is newer.
\<close>

theorem get_scr_img_path_first_newest:
  assumes "glob env (join (expanduser env search_path) ''SCR-*.png'') = pre @ m # post"
    and "\<forall>f\<in>set (pre @ m # post). getmtime env f = Some (mtime f)"
    and "\<forall>g\<in>set pre. mtime g < mtime m"
    and "\<forall>g\<in>set post. mtime g \<le> mtime m"
  shows "get_scr_img_path env search_path = Inr (Some (abspath env m))"
proof -
  have "\<forall>f\<in>set (pre @ m # post). os_path_getmtime env f = Inr (mtime f)"
    using assms(2) by (simp add: getmtime_Some)
  then have "py_max (os_path_getmtime env) (pre @ m # post) = Inr m"
    using assms(3,4) by (intro py_max_first[where k = mtime]) auto
  then show ?thesis using assms(1) by (simp add: get_scr_img_path_def bind_exn_def)
qed

lemma desktop_pattern:
  "join (expanduser home_env ''~/Desktop'') ''SCR-*.png'' = ''/home/u/Desktop/SCR-*.png''"
  by (simp add: home_env_def expanduser_def join_def rstrip_slash_def suffix_to_prefix)

lemma desktop_glob:
  "glob home_env ''/home/u/Desktop/SCR-*.png''
     = [''/home/u/Desktop/SCR-1.png'', ''/home/u/Desktop/SCR-2.png'']"
  by (simp add: home_env_def glob_def split_path_def rstrip_slash_def glob1_def ishidden_def
      has_magic_def join_def Let_def suffix_to_prefix)

lemma abspath_desktop:
  "abspath home_env ''/home/u/Desktop/SCR-2.png'' = ''/home/u/Desktop/SCR-2.png''"
  by (simp add: abspath_def normpath_def norm_step_def Let_def)

lemma pictures_glob:
  "glob home_env (join (expanduser home_env ''~/Pictures'') ''SCR-*.png'') = []"
  by (simp add: home_env_def expanduser_def glob_def split_path_def rstrip_slash_def glob1_def
      ishidden_def has_magic_def join_def Let_def suffix_to_prefix)

lemma downloads_glob:
  "glob home_env (join (expanduser home_env ''~/Downloads/'') ''SCR-*.png'')
     = [''/home/u/Downloads/SCR-1.png''] @ ''/home/u/Downloads/SCR-2.png''
        # [''/home/u/Downloads/SCR-3.png'']"
  by (simp add: home_env_def expanduser_def glob_def split_path_def rstrip_slash_def glob1_def
      ishidden_def has_magic_def join_def Let_def suffix_to_prefix)

lemma abspath_downloads:
  "abspath home_env ''/home/u/Downloads/SCR-2.png'' = ''/home/u/Downloads/SCR-2.png''"
  by (simp add: abspath_def normpath_def norm_step_def Let_def)

lemma links_glob:
  "glob home_env (join (expanduser home_env ''~/Links'') ''SCR-*.png'')
     = [''/home/u/Links/SCR-1.png'', ''/home/u/Links/SCR-gone.png'']"
  by (simp add: home_env_def expanduser_def glob_def split_path_def rstrip_slash_def glob1_def
      ishidden_def has_magic_def join_def Let_def suffix_to_prefix)

theorem get_scr_img_path_newest_witness:
  "get_scr_img_path home_env ''~/Pictures'' = Inr None
   \<and> get_scr_img_path home_env ''~/Desktop'' = Inr (Some ''/home/u/Desktop/SCR-2.png'')
   \<and> get_scr_img_path home_env ''~/Links'' = Inl OSError"
proof -
  have 1: "get_scr_img_path home_env ''~/Pictures'' = Inr None"
    using get_scr_img_path_newest[OF refl, of home_env "''~/Pictures''"] pictures_glob by simp
  have 2: "get_scr_img_path home_env ''~/Desktop'' = Inr (Some ''/home/u/Desktop/SCR-2.png'')"
  proof -
    define mtime :: "string \<Rightarrow> nat" where
      "mtime = (\<lambda>p. if p = ''/home/u/Desktop/SCR-1.png'' then 3 else 7)"
    have g: "glob home_env (join (expanduser home_env ''~/Desktop'') ''SCR-*.png'')
        = [''/home/u/Desktop/SCR-1.png'', ''/home/u/Desktop/SCR-2.png'']"
      by (simp add: desktop_pattern desktop_glob)
    have t: "\<forall>f\<in>set [''/home/u/Desktop/SCR-1.png'', ''/home/u/Desktop/SCR-2.png''].
        getmtime home_env f = Some (mtime f)"
      by (simp add: home_env_def mtime_def)
    obtain f where f: "f \<in> {''/home/u/Desktop/SCR-1.png'', ''/home/u/Desktop/SCR-2.png''}"
      and r: "get_scr_img_path home_env ''~/Desktop'' = Inr (Some (abspath home_env f))"
      and m: "mtime ''/home/u/Desktop/SCR-2.png'' \<le> mtime f"
      using get_scr_img_path_newest[OF refl, of home_env "''~/Desktop''" mtime] t unfolding g
      by auto
    have "mtime ''/home/u/Desktop/SCR-1.png'' < mtime ''/home/u/Desktop/SCR-2.png''"
      by (simp add: mtime_def)
    with f m have "f = ''/home/u/Desktop/SCR-2.png''" by auto
    with r show ?thesis by (simp add: abspath_desktop)
  qed
  have "getmtime home_env ''/home/u/Links/SCR-gone.png'' = None" by (simp add: home_env_def)
  then have 3: "get_scr_img_path home_env ''~/Links'' = Inl OSError"
    using get_scr_img_path_newest[OF refl, of home_env "''~/Links''"] unfolding links_glob by simp
  from 1 2 3 show ?thesis by simp
qed

text \<open>
  The claim C1 as stated fails on a directory that lists a matching name without a
  modification time, as a dangling symbolic link is: \<^verbatim>\<open>glob\<close> returns the name,
  \<^verbatim>\<open>os.path.getmtime\<close> raises on it, and the locator returns no path.
\<close>

theorem dangling_link_counterexample:
  "glob home_env (join (expanduser home_env ''~/Links'') ''SCR-*.png'')
     = [''/home/u/Links/SCR-1.png'', ''/home/u/Links/SCR-gone.png'']
   \<and> getmtime home_env ''/home/u/Links/SCR-1.png'' = Some 4
   \<and> getmtime home_env ''/home/u/Links/SCR-gone.png'' = None
   \<and> get_scr_img_path home_env ''~/Links'' = Inl OSError"
proof -
  have "py_max (os_path_getmtime home_env) [''/home/u/Links/SCR-1.png'', ''/home/u/Links/SCR-gone.png'']
      = Inl OSError"
    by (simp add: py_max_def bind_exn_def os_path_getmtime_def home_env_def)
  then have "get_scr_img_path home_env ''~/Links'' = Inl OSError"
    by (simp add: get_scr_img_path_def links_glob bind_exn_def)
  then show ?thesis using links_glob by (simp add: home_env_def)
qed

theorem get_scr_img_path_first_newest_witness:
  "get_scr_img_path home_env ''~/Downloads/'' = Inr (Some ''/home/u/Downloads/SCR-2.png'')"
proof -
  define mtime :: "string \<Rightarrow> nat" where
    "mtime = (\<lambda>p. if p = ''/home/u/Downloads/SCR-1.png'' then 5 else 9)"
  have "get_scr_img_path home_env ''~/Downloads/''
      = Inr (Some (abspath home_env ''/home/u/Downloads/SCR-2.png''))"
    by (rule get_scr_img_path_first_newest[OF downloads_glob, of mtime])
      (simp_all add: home_env_def mtime_def)
  then show ?thesis by (simp add: abspath_downloads)
qed

text \<open>
  The claim C9 as stated fails where the two newest files share their time: the
  locator returns the one listed first of the two, not the one listed last.
\<close>

theorem tie_returns_first_counterexample:
  "glob home_env (join (expanduser home_env ''~/Downloads/'') ''SCR-*.png'')
     = [''/home/u/Downloads/SCR-1.png'', ''/home/u/Downloads/SCR-2.png'', ''/home/u/Downloads/SCR-3.png'']
   \<and> getmtime home_env ''/home/u/Downloads/SCR-1.png'' = Some 5
   \<and> getmtime home_env ''/home/u/Downloads/SCR-2.png'' = Some 9
   \<and> getmtime home_env ''/home/u/Downloads/SCR-3.png'' = Some 9
   \<and> get_scr_img_path home_env ''~/Downloads/'' = Inr (Some ''/home/u/Downloads/SCR-2.png'')"
proof -
  have "py_max (os_path_getmtime home_env)
      [''/home/u/Downloads/SCR-1.png'', ''/home/u/Downloads/SCR-2.png'', ''/home/u/Downloads/SCR-3.png'']
      = Inr ''/home/u/Downloads/SCR-2.png''"
    by (simp add: py_max_def bind_exn_def os_path_getmtime_def home_env_def)
  then have "get_scr_img_path home_env ''~/Downloads/'' = Inr (Some ''/home/u/Downloads/SCR-2.png'')"
    using downloads_glob by (simp add: get_scr_img_path_def bind_exn_def abspath_downloads)
  then show ?thesis using downloads_glob by (simp add: home_env_def)
qed

section \<open>Properties of the suggestion client and of the compressor\<close>

lemma transported_url_sent:
  "transported_url
     \<lparr>req_url = u, req_headers = h,
      req_json = JObj [(''model'', JStr m),
        (''messages'', JArr [JObj [(''role'', JStr ''user''),
           (''content'', JArr [JObj [(''type'', JStr ''text''), (''text'', JStr t)],
                               JObj [(''type'', JStr ''image_url''),
                                     (''image_url'', JObj [(''url'', JStr data_url)])]])]])]\<rparr>
   = Inr (JStr data_url)"
  by (simp add: transported_url_def bind_exn_def list_index_def)

text \<open>
  C8. When the locator finds no screenshot, the client returns \<^verbatim>\<open>None\<close> and sends no
  request. When it finds one whose bytes can be read, the client sends exactly one
  request, and the data URL in it is \<^verbatim>\<open>data:image/png;base64,\<close> followed by the
  base64 text of these bytes. When the locator raises or the file cannot be read, the
  exception leaves the client and nothing is sent.
\<close>

theorem llm_gen_filename_data_url:
  "(get_scr_img_path env search_path = Inr None \<longrightarrow>
      llm_gen_filename post env search_path = (Inr JNull, []))
   \<and> (\<forall>image_path image_bytes.
        get_scr_img_path env search_path = Inr (Some image_path)
        \<and> read_bytes env image_path = Some image_bytes \<longrightarrow>
        (\<exists>sent. llm_gen_filename post env search_path = (post sent, [sent])
           \<and> transported_url sent
               = Inr (JStr (''data:image/png;base64,'' @ b64encode image_bytes))))
   \<and> (\<forall>image_path.
        get_scr_img_path env search_path = Inr (Some image_path)
        \<and> read_bytes env image_path = None \<longrightarrow>
        llm_gen_filename post env search_path = (Inl OSError, []))
   \<and> (\<forall>e. get_scr_img_path env search_path = Inl e \<longrightarrow>
        llm_gen_filename post env search_path = (Inl e, []))"
proof (intro conjI allI impI)
  assume "get_scr_img_path env search_path = Inr None"
  then show "llm_gen_filename post env search_path = (Inr JNull, [])"
    by (simp add: llm_gen_filename_def get_screenshot_data_url_def bind_exn_def)
next
  fix image_path image_bytes
  assume "get_scr_img_path env search_path = Inr (Some image_path)
        \<and> read_bytes env image_path = Some image_bytes"
  then have d: "get_screenshot_data_url env search_path
      = Inr (Some (''data:image/png;base64,'' @ b64encode image_bytes))"
    by (simp add: get_screenshot_data_url_def encode_image_to_base64_def bind_exn_def)
  show "\<exists>sent. llm_gen_filename post env search_path = (post sent, [sent])
           \<and> transported_url sent
               = Inr (JStr (''data:image/png;base64,'' @ b64encode image_bytes))"
    unfolding llm_gen_filename_def d Let_def
    by (simp add: transported_url_sent)
next
  fix image_path
  assume "get_scr_img_path env search_path = Inr (Some image_path)
        \<and> read_bytes env image_path = None"
  then show "llm_gen_filename post env search_path = (Inl OSError, [])"
    by (simp add: llm_gen_filename_def get_screenshot_data_url_def encode_image_to_base64_def
        bind_exn_def)
next
  fix e
  assume "get_scr_img_path env search_path = Inl e"
  then show "llm_gen_filename post env search_path = (Inl e, [])"
    by (simp add: llm_gen_filename_def get_screenshot_data_url_def bind_exn_def)
qed



lemma pictures_none: "get_scr_img_path home_env ''~/Pictures'' = Inr None"
  using pictures_glob by (simp add: get_scr_img_path_def)

lemma desktop_newest:
  "get_scr_img_path home_env ''~/Desktop'' = Inr (Some ''/home/u/Desktop/SCR-2.png'')"
proof -
  have "py_max (os_path_getmtime home_env) [''/home/u/Desktop/SCR-1.png'', ''/home/u/Desktop/SCR-2.png'']
      = Inr ''/home/u/Desktop/SCR-2.png''"
    by (simp add: py_max_def bind_exn_def os_path_getmtime_def home_env_def)
  then show ?thesis
    by (simp add: get_scr_img_path_def desktop_pattern desktop_glob abspath_desktop bind_exn_def)
qed

theorem llm_gen_filename_data_url_witness:
  "llm_gen_filename fixed_reply home_env ''~/Pictures'' = (Inr JNull, [])
   \<and> (\<exists>sent. llm_gen_filename fixed_reply home_env ''~/Desktop'' = (fixed_reply sent, [sent])
         \<and> transported_url sent = Inr (JStr ''data:image/png;base64,iVBORw==''))"
proof -
  have b: "read_bytes home_env ''/home/u/Desktop/SCR-2.png'' = Some [0x89, 0x50, 0x4E, 0x47]"
    by (simp add: home_env_def)
  have e: "b64encode [0x89, 0x50, 0x4E, 0x47] = ''iVBORw==''"
    by (simp add: b64_char_def b64_alphabet_def)
  note t = llm_gen_filename_data_url[of home_env _ fixed_reply]
  have "llm_gen_filename fixed_reply home_env ''~/Pictures'' = (Inr JNull, [])"
    using t[of "''~/Pictures''"] pictures_none by blast
  moreover have "\<exists>sent. llm_gen_filename fixed_reply home_env ''~/Desktop'' = (fixed_reply sent, [sent])
         \<and> transported_url sent = Inr (JStr ''data:image/png;base64,iVBORw=='')"
    using t[of "''~/Desktop''"] desktop_newest b e by force
  ultimately show ?thesis by blast
qed





end
